theory Spec2Isabelle
  imports Main "HOL-Library.Sublist"
begin

section \<open>JavaScript values used by the simulator\<close>

text \<open>
  The simulator (\<^verbatim>\<open>src/App.tsx\<close>) is a React component written in TypeScript. Its
  engine \<^verbatim>\<open>runScenario\<close> serialises message bodies with \<^verbatim>\<open>JSON.stringify\<close>, substitutes
  parameters in the serialised text and reads the text back with \<^verbatim>\<open>JSON.parse\<close>. This
  section models the part of the JavaScript runtime that the engine calls.

  Scope of the runtime model. Strings are lists of 8-bit characters (code units up to
  255). A number inside a JSON document is kept as its exact decimal value \<open>m / 10 ^ s\<close>
  (mantissa \<open>m\<close>, scale \<open>s\<close>), not rounded to a double; the numbers that the simulator
  computes with (what \<^verbatim>\<open>Number(value)\<close> returns, the bounds of a parameter, the delay and
  the timeout of a step) are IEEE doubles. The text of a \<^verbatim>\<open>SyntaxError\<close> is engine
  specific; the model carries a fixed text.
\<close>

subsection \<open>Decimal digits\<close>

definition digitChar :: "nat \<Rightarrow> char" where
  "digitChar d = (''0123456789abcdef'' ! d)"

definition isDigit :: "char \<Rightarrow> bool" where
  "isDigit c = (c \<in> set ''0123456789'')"

definition digitVal :: "char \<Rightarrow> nat" where
  "digitVal c = of_char c - 48"

definition hexVal :: "char \<Rightarrow> nat option" where
  "hexVal c = (if isDigit c then Some (digitVal c)
     else if c = CHR ''a'' \<or> c = CHR ''A'' then Some 10
     else if c = CHR ''b'' \<or> c = CHR ''B'' then Some 11
     else if c = CHR ''c'' \<or> c = CHR ''C'' then Some 12
     else if c = CHR ''d'' \<or> c = CHR ''D'' then Some 13
     else if c = CHR ''e'' \<or> c = CHR ''E'' then Some 14
     else if c = CHR ''f'' \<or> c = CHR ''F'' then Some 15
     else None)"

text \<open>\<^verbatim>\<open>String(n)\<close> for a natural number: its decimal digits, no leading zero.\<close>

fun digitsOf :: "nat \<Rightarrow> string" where
  "digitsOf n = (if n < 10 then [digitChar n]
     else digitsOf (n div 10) @ [digitChar (n mod 10)])"

declare digitsOf.simps [simp del]

definition digitsValue :: "string \<Rightarrow> nat" where
  "digitsValue ds = foldl (\<lambda>a c. 10 * a + digitVal c) 0 ds"

subsection \<open>JSON values\<close>

text \<open>
  A message body has type \<^verbatim>\<open>any\<close>; the bodies of the catalog and of an imported catalog
  are JSON data. An object is the list of its own properties in enumeration order.
  \<open>JNum m s\<close> is the number \<open>m / 10 ^ s\<close>.
\<close>

datatype json =
    JNull
  | JBool bool
  | JNum int nat
  | JStr string
  | JArr "json list"
  | JObj "(string \<times> json) list"

text \<open>JavaScript truthiness (\<^verbatim>\<open>!body\<close>, \<^verbatim>\<open>a && b\<close>): objects and arrays are truthy.\<close>

fun truthy :: "json \<Rightarrow> bool" where
  "truthy JNull = False"
| "truthy (JBool b) = b"
| "truthy (JNum m s) = (m \<noteq> 0)"
| "truthy (JStr s) = (s \<noteq> [])"
| "truthy (JArr xs) = True"
| "truthy (JObj ms) = True"

subsection \<open>Property order of objects\<close>

text \<open>
  Own properties enumerate with the array-index keys first, in ascending numeric order,
  then the other keys in insertion order. Writing an existing key keeps its place.
\<close>

definition isArrayIndex :: "string \<Rightarrow> bool" where
  "isArrayIndex k = (k \<noteq> [] \<and> list_all isDigit k \<and> (k = ''0'' \<or> hd k \<noteq> CHR ''0'')
     \<and> digitsValue k < 4294967295)"

fun insertIndexed :: "string \<Rightarrow> 'v \<Rightarrow> (string \<times> 'v) list \<Rightarrow> (string \<times> 'v) list" where
  "insertIndexed k v [] = [(k, v)]"
| "insertIndexed k v ((k', v') # ms) =
     (if isArrayIndex k' \<and> digitsValue k' < digitsValue k
      then (k', v') # insertIndexed k v ms
      else (k, v) # (k', v') # ms)"

fun replaceValue :: "string \<Rightarrow> 'v \<Rightarrow> (string \<times> 'v) list \<Rightarrow> (string \<times> 'v) list" where
  "replaceValue k v [] = []"
| "replaceValue k v ((k', v') # ms) =
     (if k' = k then (k, v) # ms else (k', v') # replaceValue k v ms)"

definition setProperty :: "string \<Rightarrow> 'v \<Rightarrow> (string \<times> 'v) list \<Rightarrow> (string \<times> 'v) list" where
  "setProperty k v ms =
     (if k \<in> fst ` set ms then replaceValue k v ms
      else if isArrayIndex k then insertIndexed k v ms
      else ms @ [(k, v)])"

definition deleteProperty :: "string \<Rightarrow> (string \<times> 'v) list \<Rightarrow> (string \<times> 'v) list" where
  "deleteProperty k ms = filter (\<lambda>kv. fst kv \<noteq> k) ms"

subsection \<open>JSON.stringify\<close>

text \<open>
  \<^verbatim>\<open>Number.prototype.toString\<close> on the decimal value \<open>m / 10 ^ s\<close>: with \<open>k\<close> significant
  digits and the decimal point after the \<open>n\<close>-th digit, positional notation for
  \<open>-6 < n \<le> 21\<close> and exponent notation otherwise.
\<close>

definition stripTrailingZeros :: "string \<Rightarrow> string" where
  "stripTrailingZeros ds = rev (dropWhile (\<lambda>c. c = CHR ''0'') (rev ds))"

definition numberToString :: "int \<Rightarrow> nat \<Rightarrow> string" where
  "numberToString m s =
     (if m = 0 then ''0''
      else
        let ds = digitsOf (nat \<bar>m\<bar>);
            sig = stripTrailingZeros ds;
            k = length sig;
            n = int (length ds) - int s;
            sgn = (if m < 0 then ''-'' else [])
        in sgn @
          (if int k \<le> n \<and> n \<le> 21 then sig @ replicate (nat (n - int k)) (CHR ''0'')
           else if 0 < n \<and> n \<le> 21 then take (nat n) sig @ ''.'' @ drop (nat n) sig
           else if - 6 < n \<and> n \<le> 0 then ''0.'' @ replicate (nat (- n)) (CHR ''0'') @ sig
           else (if k = 1 then sig else take 1 sig @ ''.'' @ drop 1 sig)
                @ ''e'' @ (if n - 1 < 0 then ''-'' else ''+'') @ digitsOf (nat \<bar>n - 1\<bar>)))"

text \<open>
  \<^verbatim>\<open>QuoteJSONString\<close>: the quote, the backslash and the control characters are escaped.
\<close>

definition escapeChar :: "char \<Rightarrow> string" where
  "escapeChar c =
     (if c = CHR 0x22 then [CHR 0x5C, CHR 0x22]
      else if c = CHR 0x5C then [CHR 0x5C, CHR 0x5C]
      else if c = CHR 0x08 then [CHR 0x5C, CHR ''b'']
      else if c = CHR 0x0C then [CHR 0x5C, CHR ''f'']
      else if c = CHR 0x0A then [CHR 0x5C, CHR ''n'']
      else if c = CHR 0x0D then [CHR 0x5C, CHR ''r'']
      else if c = CHR 0x09 then [CHR 0x5C, CHR ''t'']
      else if (of_char c :: nat) < 32
        then [CHR 0x5C, CHR ''u'', CHR ''0'', CHR ''0'',
              digitChar (of_char c div 16), digitChar (of_char c mod 16)]
      else [c])"

definition quoteJSONString :: "string \<Rightarrow> string" where
  "quoteJSONString s = CHR 0x22 # concat (map escapeChar s) @ [CHR 0x22]"

fun JSON_stringify :: "json \<Rightarrow> string"
  and stringifyElements :: "json list \<Rightarrow> string"
  and stringifyMembers :: "(string \<times> json) list \<Rightarrow> string" where
  "JSON_stringify JNull = ''null''"
| "JSON_stringify (JBool b) = (if b then ''true'' else ''false'')"
| "JSON_stringify (JNum m s) = numberToString m s"
| "JSON_stringify (JStr s) = quoteJSONString s"
| "JSON_stringify (JArr xs) = ''['' @ stringifyElements xs @ '']''"
| "JSON_stringify (JObj ms) = ''{'' @ stringifyMembers ms @ ''}''"
| "stringifyElements [] = []"
| "stringifyElements [x] = JSON_stringify x"
| "stringifyElements (x # y # xs) = JSON_stringify x @ '','' @ stringifyElements (y # xs)"
| "stringifyMembers [] = []"
| "stringifyMembers [(k, v)] = quoteJSONString k @ '':'' @ JSON_stringify v"
| "stringifyMembers ((k, v) # m # ms) =
     quoteJSONString k @ '':'' @ JSON_stringify v @ '','' @ stringifyMembers (m # ms)"

subsection \<open>JSON.parse: the lexer\<close>

datatype js_error = SyntaxError string

text \<open>\<^verbatim>\<open>String(e)\<close> for a thrown error: its name and its message.\<close>

fun errorToString :: "js_error \<Rightarrow> string" where
  "errorToString (SyntaxError msg) = ''SyntaxError: '' @ msg"

datatype token =
    TLBrace | TRBrace | TLBrack | TRBrack | TColon | TComma
  | TString string | TNumber int nat | TTrue | TFalse | TNull

definition isJsonWhitespace :: "char \<Rightarrow> bool" where
  "isJsonWhitespace c = (c = CHR 0x20 \<or> c = CHR 0x09 \<or> c = CHR 0x0A \<or> c = CHR 0x0D)"

definition unescapeChar :: "char \<Rightarrow> char option" where
  "unescapeChar e =
     (if e = CHR 0x22 then Some (CHR 0x22)
      else if e = CHR 0x5C then Some (CHR 0x5C)
      else if e = CHR ''/'' then Some (CHR ''/'')
      else if e = CHR ''b'' then Some (CHR 0x08)
      else if e = CHR ''f'' then Some (CHR 0x0C)
      else if e = CHR ''n'' then Some (CHR 0x0A)
      else if e = CHR ''r'' then Some (CHR 0x0D)
      else if e = CHR ''t'' then Some (CHR 0x09)
      else None)"

text \<open>
  Four hexadecimal digits of a \<^verbatim>\<open>\uXXXX\<close> escape. A code unit above 255 is outside the
  8-bit character model and is kept modulo 256.
\<close>

definition hex4 :: "char \<Rightarrow> char \<Rightarrow> char \<Rightarrow> char \<Rightarrow> char option" where
  "hex4 a b c d =
     (case (hexVal a, hexVal b, hexVal c, hexVal d) of
        (Some w, Some x, Some y, Some z) \<Rightarrow> Some (char_of (((w * 16 + x) * 16 + y) * 16 + z))
      | _ \<Rightarrow> None)"

text \<open>The characters of a string literal after its opening quote, and the rest.\<close>

fun lexString :: "string \<Rightarrow> (string \<times> string) option" where
  "lexString [] = None"
| "lexString (c # cs) =
     (if c = CHR 0x22 then Some ([], cs)
      else if c = CHR 0x5C then
        (case cs of
           [] \<Rightarrow> None
         | e # r \<Rightarrow>
             if e = CHR ''u'' then
               (case r of
                  h1 # h2 # h3 # h4 # r' \<Rightarrow>
                    (case hex4 h1 h2 h3 h4 of
                       None \<Rightarrow> None
                     | Some d \<Rightarrow> map_option (\<lambda>(s, rest). (d # s, rest)) (lexString r'))
                | _ \<Rightarrow> None)
             else
               (case unescapeChar e of
                  None \<Rightarrow> None
                | Some d \<Rightarrow> map_option (\<lambda>(s, rest). (d # s, rest)) (lexString r)))
      else if (of_char c :: nat) < 32 then None
      else map_option (\<lambda>(s, rest). (c # s, rest)) (lexString cs))"

text \<open>
  A number token: \<^verbatim>\<open>-? (0 | [1-9][0-9]*) (. [0-9]+)? ([eE] [+-]? [0-9]+)?\<close>, read as the
  exact decimal \<open>m / 10 ^ s\<close> with the smallest scale.
\<close>

definition lexFraction :: "string \<Rightarrow> (string \<times> string) option" where
  "lexFraction cs =
     (case cs of
        [] \<Rightarrow> Some ([], cs)
      | c # r \<Rightarrow>
          if c = CHR ''.'' then
            (if takeWhile isDigit r = [] then None
             else Some (takeWhile isDigit r, dropWhile isDigit r))
          else Some ([], cs))"

definition lexSign :: "string \<Rightarrow> bool \<times> string" where
  "lexSign cs =
     (case cs of
        [] \<Rightarrow> (False, cs)
      | c # r \<Rightarrow> if c = CHR ''-'' then (True, r) else if c = CHR ''+'' then (False, r)
                 else (False, cs))"

definition lexExponent :: "string \<Rightarrow> (int \<times> string) option" where
  "lexExponent cs =
     (case cs of
        [] \<Rightarrow> Some (0, cs)
      | c # r \<Rightarrow>
          if c = CHR ''e'' \<or> c = CHR ''E'' then
            (let (neg, r1) = lexSign r; ds = takeWhile isDigit r1
             in if ds = [] then None
                else Some (if neg then - int (digitsValue ds) else int (digitsValue ds),
                           dropWhile isDigit r1))
          else Some (0, cs))"

definition applyExponent :: "nat \<Rightarrow> nat \<Rightarrow> int \<Rightarrow> nat \<times> nat" where
  "applyExponent m s e =
     (if 0 \<le> e then
        (if s \<le> nat e then (m * 10 ^ (nat e - s), 0) else (m, s - nat e))
      else (m, s + nat (- e)))"

fun normalizeDecimal :: "nat \<Rightarrow> nat \<Rightarrow> nat \<times> nat" where
  "normalizeDecimal m s =
     (if s = 0 \<or> m mod 10 \<noteq> 0 then (m, s) else normalizeDecimal (m div 10) (s - 1))"

declare normalizeDecimal.simps [simp del]

definition decimalOf :: "bool \<Rightarrow> string \<Rightarrow> string \<Rightarrow> int \<Rightarrow> int \<times> nat" where
  "decimalOf neg ip fd e =
     (let (m, s) = applyExponent (digitsValue (ip @ fd)) (length fd) e;
          (m', s') = normalizeDecimal m s
      in (if neg then - int m' else int m', s'))"

definition lexNumber :: "string \<Rightarrow> ((int \<times> nat) \<times> string) option" where
  "lexNumber cs =
     (let neg = (cs \<noteq> [] \<and> hd cs = CHR ''-'');
          cs1 = (if neg then tl cs else cs);
          ip = takeWhile isDigit cs1
      in if ip = [] \<or> (hd ip = CHR ''0'' \<and> 1 < length ip) then None
         else
           (case lexFraction (dropWhile isDigit cs1) of
              None \<Rightarrow> None
            | Some (fd, cs3) \<Rightarrow>
               (case lexExponent cs3 of
                  None \<Rightarrow> None
                | Some (e, cs4) \<Rightarrow> Some (decimalOf neg ip fd e, cs4))))"

lemma lexString_shorter: "lexString cs = Some (s, rest) \<Longrightarrow> length rest < length cs"
proof (induction cs arbitrary: s rest rule: length_induct)
  case (1 cs)
  have ih: "\<And>ys t r. length ys < length cs \<Longrightarrow> lexString ys = Some (t, r) \<Longrightarrow> length r < length ys"
    using "1.IH" by blast
  show ?case
  proof (cases cs)
    case Nil
    with "1.prems" show ?thesis by simp
  next
    case (Cons c cs')
    show ?thesis
    proof (cases "c = CHR 0x22")
      case True
      with "1.prems" Cons show ?thesis by simp
    next
      case nq: False
      show ?thesis
      proof (cases "c = CHR 0x5C")
        case False
        with nq "1.prems" Cons obtain t where "lexString cs' = Some (t, rest)"
          by (auto split: if_splits)
        from ih [OF _ this] Cons show ?thesis by simp
      next
        case True
        with "1.prems" Cons obtain e r where cs': "cs' = e # r"
          by (cases cs') auto
        show ?thesis
        proof (cases "e = CHR ''u''")
          case False
          with True "1.prems" Cons cs' obtain t where "lexString r = Some (t, rest)"
            by (auto split: option.splits)
          from ih [OF _ this] Cons cs' show ?thesis by simp
        next
          case u: True
          with True "1.prems" Cons cs' obtain h1 h2 h3 h4 r' t
            where "r = h1 # h2 # h3 # h4 # r'" and "lexString r' = Some (t, rest)"
            by (auto split: list.splits option.splits)
          with ih [of r' t rest] Cons cs' show ?thesis by simp
        qed
      qed
    qed
  qed
qed

lemma lexFraction_shorter: "lexFraction cs = Some (fd, rest) \<Longrightarrow> length rest \<le> length cs"
  by (auto simp: lexFraction_def split: list.splits if_splits
      intro: le_trans [OF length_dropWhile_le])

lemma lexSign_shorter: "lexSign cs = (neg, rest) \<Longrightarrow> length rest \<le> length cs"
  by (auto simp: lexSign_def split: list.splits if_splits)

lemma lexExponent_shorter: "lexExponent cs = Some (e, rest) \<Longrightarrow> length rest \<le> length cs"
proof -
  assume a: "lexExponent cs = Some (e, rest)"
  show ?thesis
  proof (cases cs)
    case Nil
    with a show ?thesis by (simp add: lexExponent_def)
  next
    case (Cons c r)
    obtain neg r1 where s: "lexSign r = (neg, r1)" by (cases "lexSign r")
    have "length (dropWhile isDigit r1) \<le> length r1" by (rule length_dropWhile_le)
    moreover have "length r1 \<le> length r" using s by (rule lexSign_shorter)
    ultimately show ?thesis using a Cons s
      by (auto simp: lexExponent_def Let_def split: if_splits)
  qed
qed

lemma lexNumber_shorter:
  assumes "lexNumber cs = Some (v, rest)"
  shows "length rest < length cs"
proof -
  define cs1 where "cs1 = (if cs \<noteq> [] \<and> hd cs = CHR ''-'' then tl cs else cs)"
  have ne: "takeWhile isDigit cs1 \<noteq> []"
    using assms by (auto simp: lexNumber_def Let_def cs1_def split: if_splits)
  obtain fd cs3 where f: "lexFraction (dropWhile isDigit cs1) = Some (fd, cs3)"
    using assms by (auto simp: lexNumber_def Let_def cs1_def split: if_splits option.splits)
  have e: "\<exists>e. lexExponent cs3 = Some (e, rest)"
    using assms f by (auto simp: lexNumber_def Let_def cs1_def split: if_splits option.splits)
  have "length (takeWhile isDigit cs1) + length (dropWhile isDigit cs1) = length cs1"
    by (metis length_append takeWhile_dropWhile_id)
  then have "length (dropWhile isDigit cs1) < length cs1" using ne by (cases "takeWhile isDigit cs1") auto
  moreover have "length cs3 \<le> length (dropWhile isDigit cs1)" using f by (rule lexFraction_shorter)
  moreover have "length rest \<le> length cs3" using e by (auto dest: lexExponent_shorter)
  moreover have "length cs1 \<le> length cs" by (simp add: cs1_def)
  ultimately show ?thesis by linarith
qed

text \<open>The tokens of a JSON text; \<open>None\<close> where the engine throws a \<^verbatim>\<open>SyntaxError\<close>.\<close>

function lex :: "string \<Rightarrow> token list option" where
  "lex [] = Some []"
| "lex (c # cs) =
     (if isJsonWhitespace c then lex cs
      else if c = CHR ''{'' then map_option (Cons TLBrace) (lex cs)
      else if c = CHR ''}'' then map_option (Cons TRBrace) (lex cs)
      else if c = CHR ''['' then map_option (Cons TLBrack) (lex cs)
      else if c = CHR '']'' then map_option (Cons TRBrack) (lex cs)
      else if c = CHR '':'' then map_option (Cons TColon) (lex cs)
      else if c = CHR '','' then map_option (Cons TComma) (lex cs)
      else if c = CHR 0x22 then
        (case lexString cs of
           None \<Rightarrow> None
         | Some (s, rest) \<Rightarrow> map_option (Cons (TString s)) (lex rest))
      else if c = CHR ''-'' \<or> isDigit c then
        (case lexNumber (c # cs) of
           None \<Rightarrow> None
         | Some ((m, s), rest) \<Rightarrow> map_option (Cons (TNumber m s)) (lex rest))
      else if take 4 (c # cs) = ''true'' then map_option (Cons TTrue) (lex (drop 3 cs))
      else if take 5 (c # cs) = ''false'' then map_option (Cons TFalse) (lex (drop 4 cs))
      else if take 4 (c # cs) = ''null'' then map_option (Cons TNull) (lex (drop 3 cs))
      else None)"
  by pat_completeness auto

termination
proof (relation "measure length", goal_cases)
  case (9 c cs x2 x y)
  then have "lexString cs = Some (x, y)" by simp
  then show ?case by (auto dest: lexString_shorter)
next
  case (10 c cs x2 x y xa ya)
  then have "lexNumber (c # cs) = Some (x, y)" by simp
  from lexNumber_shorter [OF this] show ?case by simp
qed simp_all

subsection \<open>JSON.parse: the parser\<close>

text \<open>
  The parser reads the tokens from left to right with a stack of the arrays and objects
  that are still open. A member is stored with \<open>setProperty\<close>, so a repeated key keeps
  its first place and its last value.
\<close>

datatype frame =
    InArray "json list"
  | InObject "(string \<times> json) list"
  | InMember "(string \<times> json) list" string

datatype expect =
    ExpectValue | ExpectValueOrEnd | ExpectKeyOrEnd | ExpectKey | ExpectColon
  | ExpectCommaOrEnd | Finished json

fun addValue :: "json \<Rightarrow> frame list \<Rightarrow> (expect \<times> frame list) option" where
  "addValue v [] = Some (Finished v, [])"
| "addValue v (InArray xs # st) = Some (ExpectCommaOrEnd, InArray (xs @ [v]) # st)"
| "addValue v (InMember ms k # st) = Some (ExpectCommaOrEnd, InObject (setProperty k v ms) # st)"
| "addValue v (InObject ms # st) = None"

fun startValue :: "token \<Rightarrow> frame list \<Rightarrow> (expect \<times> frame list) option" where
  "startValue TLBrace st = Some (ExpectKeyOrEnd, InObject [] # st)"
| "startValue TLBrack st = Some (ExpectValueOrEnd, InArray [] # st)"
| "startValue (TString s) st = addValue (JStr s) st"
| "startValue (TNumber m s) st = addValue (JNum m s) st"
| "startValue TTrue st = addValue (JBool True) st"
| "startValue TFalse st = addValue (JBool False) st"
| "startValue TNull st = addValue JNull st"
| "startValue t st = None"

fun parseStep :: "token \<Rightarrow> expect \<times> frame list \<Rightarrow> (expect \<times> frame list) option" where
  "parseStep t (ExpectValue, st) = startValue t st"
| "parseStep t (ExpectValueOrEnd, st) =
     (case (t, st) of
        (TRBrack, InArray xs # st') \<Rightarrow> addValue (JArr xs) st'
      | _ \<Rightarrow> startValue t st)"
| "parseStep t (ExpectKeyOrEnd, st) =
     (case (t, st) of
        (TRBrace, InObject ms # st') \<Rightarrow> addValue (JObj ms) st'
      | (TString k, InObject ms # st') \<Rightarrow> Some (ExpectColon, InMember ms k # st')
      | _ \<Rightarrow> None)"
| "parseStep t (ExpectKey, st) =
     (case (t, st) of
        (TString k, InObject ms # st') \<Rightarrow> Some (ExpectColon, InMember ms k # st')
      | _ \<Rightarrow> None)"
| "parseStep t (ExpectColon, st) =
     (case t of TColon \<Rightarrow> Some (ExpectValue, st) | _ \<Rightarrow> None)"
| "parseStep t (ExpectCommaOrEnd, st) =
     (case (t, st) of
        (TComma, InArray xs # st') \<Rightarrow> Some (ExpectValue, st)
      | (TComma, InObject ms # st') \<Rightarrow> Some (ExpectKey, st)
      | (TRBrack, InArray xs # st') \<Rightarrow> addValue (JArr xs) st'
      | (TRBrace, InObject ms # st') \<Rightarrow> addValue (JObj ms) st'
      | _ \<Rightarrow> None)"
| "parseStep t (Finished v, st) = None"

fun parseTokens :: "token list \<Rightarrow> expect \<times> frame list \<Rightarrow> (expect \<times> frame list) option" where
  "parseTokens [] cfg = Some cfg"
| "parseTokens (t # ts) cfg =
     (case parseStep t cfg of None \<Rightarrow> None | Some cfg' \<Rightarrow> parseTokens ts cfg')"

definition JSON_parse :: "string \<Rightarrow> js_error + json" where
  "JSON_parse text =
     (case lex text of
        None \<Rightarrow> Inl (SyntaxError ''Unexpected token in JSON'')
      | Some ts \<Rightarrow>
          (case parseTokens ts (ExpectValue, []) of
             Some (Finished v, st) \<Rightarrow> Inr v
           | _ \<Rightarrow> Inl (SyntaxError ''Unexpected token in JSON'')))"

subsection \<open>Numbers: Number(value), comparison, String(number) and timers\<close>

text \<open>
  A value of type \<^verbatim>\<open>number\<close> is an IEEE 754 double. A finite double other than the
  negative zero is kept as the dyadic fraction \<open>n / 2 ^ k\<close> that it is, in lowest terms
  (\<open>Finite n k\<close> with \<open>k = 0\<close> or \<open>n\<close> odd); an integer \<open>n\<close> is \<open>Finite n 0\<close>.
\<close>

datatype number = NaN | NegInfinity | NegZero | Finite int nat | PosInfinity

fun dyadic :: "int \<Rightarrow> nat \<Rightarrow> number" where
  "dyadic n k = (if k = 0 \<or> odd n then Finite n k else dyadic (n div 2) (k - 1))"

declare dyadic.simps [simp del]

text \<open>
  Rounding the positive fraction \<open>p / q\<close>, with the sign \<open>neg\<close>, to the nearest double, a
  tie to the even significand: the significand has 53 bits when the exponent allows it
  and fewer below \<open>2 ^ - 1022\<close> (the unit in the last place is never under \<open>2 ^ - 1074\<close>);
  from \<open>2 ^ 1024\<close> on, the result is an infinity; a result of zero keeps the sign.
  \<open>binaryExponent p q\<close> is the integer \<open>d\<close> with \<open>2 ^ d \<le> p / q < 2 ^ (d + 1)\<close>.
\<close>

fun bitLength :: "nat \<Rightarrow> nat" where
  "bitLength n = (if n = 0 then 0 else Suc (bitLength (n div 2)))"

declare bitLength.simps [simp del]

definition binaryExponent :: "nat \<Rightarrow> nat \<Rightarrow> int" where
  "binaryExponent p q =
     (let d = int (bitLength p) - int (bitLength q)
      in if (if 0 \<le> d then q * 2 ^ nat d \<le> p else q \<le> p * 2 ^ nat (- d)) then d else d - 1)"

definition roundHalfEven :: "nat \<Rightarrow> nat \<Rightarrow> nat" where
  "roundHalfEven p q =
     (let m = p div q; r = p mod q
      in if 2 * r < q then m else if q < 2 * r then m + 1 else if even m then m else m + 1)"

definition roundToDouble :: "bool \<Rightarrow> nat \<Rightarrow> nat \<Rightarrow> number" where
  "roundToDouble neg p q =
     (if p = 0 then (if neg then NegZero else Finite 0 0)
      else
        let e = max (binaryExponent p q - 52) (- 1074);
            m = (if 0 \<le> e then roundHalfEven p (q * 2 ^ nat e)
                 else roundHalfEven (p * 2 ^ nat (- e)) q)
        in if m = 0 then (if neg then NegZero else Finite 0 0)
           else if 0 \<le> e then
             (if 2 ^ 1024 \<le> m * 2 ^ nat e then (if neg then NegInfinity else PosInfinity)
              else Finite ((if neg then - 1 else 1) * int (m * 2 ^ nat e)) 0)
           else dyadic ((if neg then - 1 else 1) * int m) (nat (- e)))"

text \<open>
  \<^verbatim>\<open>Number(value)\<close> on a string (\<^verbatim>\<open>StringToNumber\<close>): white space is trimmed, the empty
  text is \<open>0\<close>, then a signed decimal literal, \<^verbatim>\<open>Infinity\<close> or an unsigned
  hexadecimal, octal or binary literal; anything else is \<^verbatim>\<open>NaN\<close>. The value of the
  literal is rounded to a double, exactly (the language leaves an engine some freedom
  beyond the 20th significant digit of a literal; the model takes none).
\<close>

definition isStrWhiteSpace :: "char \<Rightarrow> bool" where
  "isStrWhiteSpace c = (c = CHR 0x09 \<or> c = CHR 0x0A \<or> c = CHR 0x0B \<or> c = CHR 0x0C
     \<or> c = CHR 0x0D \<or> c = CHR 0x20 \<or> c = CHR 0xA0)"

definition trimString :: "string \<Rightarrow> string" where
  "trimString v = rev (dropWhile isStrWhiteSpace (rev (dropWhile isStrWhiteSpace v)))"

definition radixValue :: "nat \<Rightarrow> string \<Rightarrow> nat option" where
  "radixValue r ds =
     (if ds \<noteq> [] \<and> list_all (\<lambda>c. case hexVal c of None \<Rightarrow> False | Some d \<Rightarrow> d < r) ds
      then Some (foldl (\<lambda>a c. r * a + the (hexVal c)) 0 ds)
      else None)"

definition nonDecimalLiteral :: "string \<Rightarrow> nat option" where
  "nonDecimalLiteral t =
     (case t of
        z # x # ds \<Rightarrow>
          if z \<noteq> CHR ''0'' then None
          else if x = CHR ''x'' \<or> x = CHR ''X'' then radixValue 16 ds
          else if x = CHR ''o'' \<or> x = CHR ''O'' then radixValue 8 ds
          else if x = CHR ''b'' \<or> x = CHR ''B'' then radixValue 2 ds
          else None
      | _ \<Rightarrow> None)"

definition strDecimalLiteral :: "string \<Rightarrow> number" where
  "strDecimalLiteral t =
     (let (neg, u) = lexSign t in
      if u = ''Infinity'' then (if neg then NegInfinity else PosInfinity)
      else
        let ip = takeWhile isDigit u;
            r1 = dropWhile isDigit u;
            dot = (r1 \<noteq> [] \<and> hd r1 = CHR ''.'');
            fd = (if dot then takeWhile isDigit (tl r1) else []);
            r2 = (if dot then dropWhile isDigit (tl r1) else r1)
        in if ip = [] \<and> fd = [] then NaN
           else
             (case lexExponent r2 of
                Some (e, []) \<Rightarrow>
                  (case decimalOf neg ip fd e of (m, s) \<Rightarrow> roundToDouble neg (nat \<bar>m\<bar>) (10 ^ s))
              | _ \<Rightarrow> NaN))"

definition Number :: "string \<Rightarrow> number" where
  "Number v =
     (let t = trimString v in
      if t = [] then Finite 0 0
      else
        (case nonDecimalLiteral t of
           Some n \<Rightarrow> roundToDouble False n 1
         | None \<Rightarrow> if hd t = CHR ''0'' \<and> 1 < length t \<and> hd (tl t) \<in> set ''xXoObB''
                    then NaN else strDecimalLiteral t))"

text \<open>
  \<^verbatim>\<open>isNaN(x)\<close>, \<^verbatim>\<open>x < y\<close> and \<^verbatim>\<open>x > y\<close> on numbers: a comparison with \<^verbatim>\<open>NaN\<close> is false,
  and the two zeros are equal.
\<close>

fun isNaN :: "number \<Rightarrow> bool" where
  "isNaN NaN = True"
| "isNaN n = False"

fun numberLess :: "number \<Rightarrow> number \<Rightarrow> bool" where
  "numberLess (Finite n k) (Finite n' k') = (n * 2 ^ k' < n' * 2 ^ k)"
| "numberLess (Finite n k) NegZero = (n < 0)"
| "numberLess NegZero (Finite n' k') = (0 < n')"
| "numberLess NegZero NegZero = False"
| "numberLess NaN y = False"
| "numberLess x NaN = False"
| "numberLess PosInfinity y = False"
| "numberLess x PosInfinity = True"
| "numberLess NegInfinity y = (y \<noteq> NegInfinity)"
| "numberLess x NegInfinity = False"

fun numberGreater :: "number \<Rightarrow> number \<Rightarrow> bool" where
  "numberGreater x y = numberLess y x"

text \<open>
  \<^verbatim>\<open>String(x)\<close> on a number, as a template literal applies it
  (\<^verbatim>\<open>Number::toString\<close>): the digits \<open>c\<close> of the shortest decimal \<open>c * 10 ^ (n - k)\<close> that
  rounds to \<open>x\<close> (the nearest to \<open>x\<close> among those of \<open>k\<close> digits; 17 digits always do),
  then positional notation for \<open>-6 < n \<le> 21\<close> and exponent notation otherwise.
  \<open>decimalExponent p q\<close> is the integer \<open>n\<close> with \<open>10 ^ (n - 1) \<le> p / q < 10 ^ n\<close>.
\<close>

definition decimalExponent :: "nat \<Rightarrow> nat \<Rightarrow> int" where
  "decimalExponent p q =
     (if q \<le> p then int (length (digitsOf (p div q)))
      else 1 - int (length (digitsOf ((q - 1) div p))))"

definition decimalToDouble :: "nat \<Rightarrow> int \<Rightarrow> number" where
  "decimalToDouble c e =
     (if 0 \<le> e then roundToDouble False (c * 10 ^ nat e) 1
      else roundToDouble False c (10 ^ nat (- e)))"

definition candidateAt :: "number \<Rightarrow> nat \<Rightarrow> nat \<Rightarrow> int \<Rightarrow> nat \<Rightarrow> nat option" where
  "candidateAt x p q n k =
     (let e = int k - n;
          tn = (if 0 \<le> e then p * 10 ^ nat e else p);
          td = (if 0 \<le> e then q else q * 10 ^ nat (- e));
          lo = tn div td;
          r = tn mod td;
          okLo = (decimalToDouble lo (- e) = x);
          okHi = (decimalToDouble (lo + 1) (- e) = x)
      in if okLo \<and> okHi then
           Some (if 2 * r < td then lo else if td < 2 * r then lo + 1
                 else if even lo then lo else lo + 1)
         else if okLo then Some lo
         else if okHi then Some (lo + 1)
         else None)"

definition formatDecimal :: "string \<Rightarrow> int \<Rightarrow> string" where
  "formatDecimal sig n =
     (if int (length sig) \<le> n \<and> n \<le> 21
        then sig @ replicate (nat (n - int (length sig))) (CHR ''0'')
      else if 0 < n \<and> n \<le> 21 then take (nat n) sig @ ''.'' @ drop (nat n) sig
      else if - 6 < n \<and> n \<le> 0 then ''0.'' @ replicate (nat (- n)) (CHR ''0'') @ sig
      else (if length sig = 1 then sig else take 1 sig @ ''.'' @ drop 1 sig)
           @ ''e'' @ (if n - 1 < 0 then ''-'' else ''+'') @ digitsOf (nat \<bar>n - 1\<bar>))"

definition formatCandidate :: "nat \<Rightarrow> int \<Rightarrow> nat \<Rightarrow> string" where
  "formatCandidate c n k =
     formatDecimal (stripTrailingZeros (digitsOf c)) (n + int (length (digitsOf c)) - int k)"

function shortestFrom :: "number \<Rightarrow> nat \<Rightarrow> nat \<Rightarrow> int \<Rightarrow> nat \<Rightarrow> string" where
  "shortestFrom x p q n k =
     (if 17 \<le> k then
        formatCandidate (if 0 \<le> int k - n then p * 10 ^ nat (int k - n) div q
                         else p div (q * 10 ^ nat (n - int k))) n k
      else
        (case candidateAt x p q n k of
           Some c \<Rightarrow> formatCandidate c n k
         | None \<Rightarrow> shortestFrom x p q n (k + 1)))"
  by pat_completeness auto
termination
  by (relation "measure (\<lambda>(x, p, q, n, k). 17 - k)") auto

declare shortestFrom.simps [simp del]

definition positiveToString :: "nat \<Rightarrow> nat \<Rightarrow> string" where
  "positiveToString p k =
     shortestFrom (dyadic (int p) k) p (2 ^ k) (decimalExponent p (2 ^ k)) 1"

fun Number_toString :: "number \<Rightarrow> string" where
  "Number_toString NaN = ''NaN''"
| "Number_toString NegInfinity = ''-Infinity''"
| "Number_toString PosInfinity = ''Infinity''"
| "Number_toString NegZero = ''0''"
| "Number_toString (Finite n k) =
     (if n = 0 then ''0''
      else if n < 0 then ''-'' @ positiveToString (nat (- n)) k
      else positiveToString (nat n) k)"

text \<open>
  The delay of \<^verbatim>\<open>setTimeout(handler, ms)\<close>. The browser converts \<open>ms\<close> to a signed 32-bit
  integer (\<^verbatim>\<open>ToInt32\<close>: not a number and the infinities are \<open>0\<close>, a fraction is cut off,
  the integer is taken modulo \<open>2 ^ 32\<close> into \<open>- 2 ^ 31 \<dots> 2 ^ 31 - 1\<close>) and sets a negative
  delay to \<open>0\<close>. So a delay over 2147483647 ms is not waited for.
\<close>

definition toInt32 :: "number \<Rightarrow> int" where
  "toInt32 x =
     (case x of
        Finite n k \<Rightarrow>
          (let i = (if 0 \<le> n then n div 2 ^ k else - ((- n) div 2 ^ k));
               w = i mod 2 ^ 32
           in if w < 2 ^ 31 then w else w - 2 ^ 32)
      | _ \<Rightarrow> 0)"

definition timerDelay :: "number \<Rightarrow> nat" where
  "timerDelay ms = (if toInt32 ms < 0 then 0 else nat (toInt32 ms))"



fun expandReplacement :: "string \<Rightarrow> string \<Rightarrow> string \<Rightarrow> string \<Rightarrow> string" where
  "expandReplacement matched before after [] = []"
| "expandReplacement matched before after [c] = [c]"
| "expandReplacement matched before after (c # d # r) =
     (if c = CHR ''$'' then
        (if d = CHR ''$'' then CHR ''$'' # expandReplacement matched before after r
         else if d = CHR ''&'' then matched @ expandReplacement matched before after r
         else if d = CHR 0x60 then before @ expandReplacement matched before after r
         else if d = CHR 0x27 then after @ expandReplacement matched before after r
         else c # expandReplacement matched before after (d # r))
      else c # expandReplacement matched before after (d # r))"

fun replaceFrom :: "string \<Rightarrow> string \<Rightarrow> string \<Rightarrow> string \<Rightarrow> string" where
  "replaceFrom pat val before [] = []"
| "replaceFrom pat val before (c # cs) =
     (if pat \<noteq> [] \<and> take (length pat) (c # cs) = pat
      then expandReplacement pat before (drop (length pat - 1) cs) val
           @ replaceFrom pat val (before @ pat) (drop (length pat - 1) cs)
      else c # replaceFrom pat val (before @ [c]) cs)"

definition placeholder :: "string \<Rightarrow> string" where
  "placeholder k = ''{{'' @ k @ ''}}''"

definition replaceAll :: "string \<Rightarrow> string \<Rightarrow> string \<Rightarrow> string" where
  "replaceAll k val str = replaceFrom (placeholder k) val [] str"

section \<open>The data model (types.ts)\<close>

text \<open>
  The interfaces of \<^verbatim>\<open>types.ts\<close> as records. A field whose name is taken in
  Isabelle/HOL or by another record carries a prefix: \<^verbatim>\<open>function\<close> is \<open>func\<close>,
  \<^verbatim>\<open>name\<close>, \<^verbatim>\<open>description\<close>, \<^verbatim>\<open>id\<close>, \<^verbatim>\<open>type\<close>, \<^verbatim>\<open>timestamp\<close>, \<^verbatim>\<open>notes\<close>, \<^verbatim>\<open>min\<close> and
  \<^verbatim>\<open>max\<close> likewise. Durations are numbers of milliseconds. An optional field is an
  \<open>option\<close>.
\<close>

datatype MessageDirection = HOST_TO_EQP | EQP_TO_HOST | INFO | ERROR

datatype LogType = LogSuccess | LogInfo | LogError | LogWarning

record SecsMessage =
  stream :: nat
  func :: nat
  waitBit :: bool
  msgName :: string
  body :: json

record LogEntry =
  logId :: nat
  logTimestamp :: nat
  direction :: MessageDirection
  summary :: string
  detail :: string
  logType :: LogType

datatype StandardType = E9 | E142 | GENERIC

record TestStep =
  stepName :: string
  stepDescription :: string
  messageToSend :: SecsMessage
  expectedResponseSxFy :: "string option"
  simulateDelay :: "number option"
  timeout :: "number option"

datatype ParameterType = STRING | NUMBER | ENUM

record ScenarioParameter =
  key :: string
  label :: string
  defaultValue :: string
  paramDescription :: "string option"
  paramType :: "ParameterType option"
  options :: "string list option"
  minValue :: "number option"
  maxValue :: "number option"

record TestScenario =
  scenarioIdent :: string
  title :: string
  standard :: StandardType
  description :: string
  parameters :: "ScenarioParameter list option"
  steps :: "TestStep list"

record TestResult =
  scenarioId :: string
  timestamp :: nat
  passed :: bool
  resultNotes :: string

text \<open>
  The shape of a \<^verbatim>\<open>TestScenario\<close> in a JSON document, read off the interfaces: the
  required properties with their types, the optional ones when present.
\<close>

fun isJString :: "json \<Rightarrow> bool" where
  "isJString (JStr s) = True"
| "isJString v = False"

fun isJNumber :: "json \<Rightarrow> bool" where
  "isJNumber (JNum m s) = True"
| "isJNumber v = False"

fun isJBoolean :: "json \<Rightarrow> bool" where
  "isJBoolean (JBool b) = True"
| "isJBoolean v = False"

fun isArrayOf :: "(json \<Rightarrow> bool) \<Rightarrow> json \<Rightarrow> bool" where
  "isArrayOf p (JArr xs) = list_all p xs"
| "isArrayOf p v = False"

definition requiredField :: "(json \<Rightarrow> bool) \<Rightarrow> (string \<times> json) list \<Rightarrow> string \<Rightarrow> bool" where
  "requiredField p ms k = (case map_of ms k of None \<Rightarrow> False | Some v \<Rightarrow> p v)"

definition optionalField :: "(json \<Rightarrow> bool) \<Rightarrow> (string \<times> json) list \<Rightarrow> string \<Rightarrow> bool" where
  "optionalField p ms k = (case map_of ms k of None \<Rightarrow> True | Some v \<Rightarrow> p v)"

definition isStandardType :: "json \<Rightarrow> bool" where
  "isStandardType v = (v = JStr ''E9 (System Control)'' \<or> v = JStr ''E142 (Substrate Mapping)''
     \<or> v = JStr ''Generic SECS'')"

definition isParameterType :: "json \<Rightarrow> bool" where
  "isParameterType v = (v = JStr ''STRING'' \<or> v = JStr ''NUMBER'' \<or> v = JStr ''ENUM'')"

fun isSecsMessage :: "json \<Rightarrow> bool" where
  "isSecsMessage (JObj ms) =
     (requiredField isJNumber ms ''stream'' \<and> requiredField isJNumber ms ''function''
      \<and> requiredField isJBoolean ms ''waitBit'' \<and> requiredField isJString ms ''name''
      \<and> requiredField (\<lambda>v. True) ms ''body'')"
| "isSecsMessage v = False"

fun isTestStep :: "json \<Rightarrow> bool" where
  "isTestStep (JObj ms) =
     (requiredField isJString ms ''name'' \<and> requiredField isJString ms ''description''
      \<and> requiredField isSecsMessage ms ''messageToSend''
      \<and> optionalField isJString ms ''expectedResponseSxFy''
      \<and> optionalField isJNumber ms ''simulateDelay'' \<and> optionalField isJNumber ms ''timeout'')"
| "isTestStep v = False"

fun isScenarioParameter :: "json \<Rightarrow> bool" where
  "isScenarioParameter (JObj ms) =
     (requiredField isJString ms ''key'' \<and> requiredField isJString ms ''label''
      \<and> requiredField isJString ms ''defaultValue''
      \<and> optionalField isJString ms ''description'' \<and> optionalField isParameterType ms ''type''
      \<and> optionalField (isArrayOf isJString) ms ''options''
      \<and> optionalField isJNumber ms ''min'' \<and> optionalField isJNumber ms ''max'')"
| "isScenarioParameter v = False"

fun isTestScenario :: "json \<Rightarrow> bool" where
  "isTestScenario (JObj ms) =
     (requiredField isJString ms ''id'' \<and> requiredField isJString ms ''title''
      \<and> requiredField isStandardType ms ''standard''
      \<and> requiredField isJString ms ''description''
      \<and> optionalField (isArrayOf isScenarioParameter) ms ''parameters''
      \<and> requiredField (isArrayOf isTestStep) ms ''steps'')"
| "isTestScenario v = False"

section \<open>The application state and its handlers (App.tsx)\<close>

text \<open>
  The state of the component \<^verbatim>\<open>App\<close>: its \<^verbatim>\<open>useState\<close> cells (the tab of the
  presentation apart) and the two values it draws from the environment. \<open>now\<close>
  is the clock that \<^verbatim>\<open>new Date()\<close> reads, in milliseconds; a suspension
  \<^verbatim>\<open>await new Promise(r => setTimeout(r, ms))\<close> advances it by the delay that the timer is
  set to (\<open>timerDelay ms\<close>) and nothing else does (a virtual clock). \<open>idsDrawn\<close> counts the calls of \<^verbatim>\<open>generateId\<close>; the random
  identifier of a log entry is modelled by the number of its draw. The catalog holds the
  elements of the array the last import stored, whatever they are. A run is modelled
  without other handlers interleaving at its suspension points.
\<close>

record AppState =
  scenarios :: "json list"
  selectedScenario :: "TestScenario option"
  logs :: "LogEntry list"
  results :: "TestResult list"
  runningStep :: "nat option"
  paramValues :: "(string \<times> string) list"
  validationErrors :: "(string \<times> string) list"
  now :: nat
  idsDrawn :: nat

definition sleep :: "number \<Rightarrow> AppState \<Rightarrow> AppState" where
  "sleep ms s = s\<lparr>now := now s + timerDelay ms\<rparr>"

definition addLog :: "MessageDirection \<Rightarrow> string \<Rightarrow> json \<Rightarrow> LogType \<Rightarrow> AppState \<Rightarrow> AppState" where
  "addLog dir text d ty s =
     s\<lparr>logs := logs s @
          [\<lparr>logId = idsDrawn s, logTimestamp = now s, direction = dir, summary = text,
            detail = JSON_stringify d, logType = ty\<rparr>],
       idsDrawn := idsDrawn s + 1\<rparr>"

subsection \<open>Parameters: initialisation and validation\<close>

text \<open>
  The effect on \<^verbatim>\<open>selectedScenario\<close> fills the parameter map with the declared
  defaults and empties the error map; it runs when the selection changes.
\<close>

definition parameterDefaults :: "ScenarioParameter list \<Rightarrow> (string \<times> string) list" where
  "parameterDefaults ps = foldl (\<lambda>acc p. setProperty (key p) (defaultValue p) acc) [] ps"

definition setSelectedScenario :: "TestScenario option \<Rightarrow> AppState \<Rightarrow> AppState" where
  "setSelectedScenario sel s =
     (if selectedScenario s = sel then s
      else s\<lparr>selectedScenario := sel,
             paramValues :=
               (case sel of
                  None \<Rightarrow> []
                | Some sc \<Rightarrow> (case parameters sc of None \<Rightarrow> [] | Some ps \<Rightarrow> parameterDefaults ps)),
             validationErrors := []\<rparr>)"

definition validateParameter :: "ScenarioParameter \<Rightarrow> string \<Rightarrow> string option" where
  "validateParameter param v =
     (if v = [] \<and> v \<noteq> ''0'' then Some ''Value is required''
      else if paramType param = Some NUMBER then
        (let num = Number v in
         if isNaN num then Some ''Must be a number''
         else if minValue param \<noteq> None \<and> numberLess num (the (minValue param))
           then Some (''Min value: '' @ Number_toString (the (minValue param)))
         else if maxValue param \<noteq> None \<and> numberGreater num (the (maxValue param))
           then Some (''Max value: '' @ Number_toString (the (maxValue param)))
         else None)
      else None)"

definition handleParamChange :: "ScenarioParameter \<Rightarrow> string \<Rightarrow> AppState \<Rightarrow> AppState" where
  "handleParamChange param v s =
     s\<lparr>paramValues := setProperty (key param) v (paramValues s),
       validationErrors :=
         (case validateParameter param v of
            Some err \<Rightarrow> setProperty (key param) err (validationErrors s)
          | None \<Rightarrow> deleteProperty (key param) (validationErrors s))\<rparr>"

subsection \<open>The reply table (constants.ts)\<close>

definition MOCK_RESPONSES :: "(string \<times> json) list" where
  "MOCK_RESPONSES =
     [(''S1F1'', JObj [(''MDLN'', JStr ''GEMINI-SIM-TOOL''), (''SOFTREV'', JStr ''1.0.0'')]),
      (''S1F13'', JObj [(''COMMACK'', JNum 0 0), (''MDLN'', JArr [JStr ''GEMINI-SIM-TOOL'']),
                       (''SOFTREV'', JArr [JStr ''1.0.0''])]),
      (''S1F17'', JObj [(''ONLACK'', JNum 0 0)]),
      (''S2F41'', JObj [(''HCACK'', JNum 0 0), (''CPNAME'', JArr []), (''CPACK'', JArr [])]),
      (''S12F3'', JObj [(''SDACK'', JNum 0 0)]),
      (''S12F1'', JObj [(''MID'', JStr ''WAFER_01''), (''IDTYP'', JStr ''WAFER''),
                       (''FNLOC'', JNum 0 0), (''ORLOC'', JNum 1 0), (''RPSEL'', JNum 0 0),
                       (''REFP'', JArr [JNum 0 0, JNum 0 0]), (''DUTMS'', JStr ''mm''),
                       (''XDIUS'', JNum 300 0), (''YDIUS'', JNum 300 0),
                       (''BINLT'', JArr [JStr ''01'', JStr ''02'', JStr ''03'']),
                       (''MLCL'', JNum 500 0)]),
      (''S14F2'', JObj [(''OBJID'', JStr ''WaferMap_01''), (''ATTRID'', JArr [JStr ''BinMap'']),
                       (''ATTRDATA'', JArr [JStr ''001001001''])]),
      (''S14F4'', JObj [(''OBJID'', JStr ''WaferMap_01''), (''ATTRID'', JStr ''BinMap''),
                       (''ERRCODE'', JNum 0 0)]),
      (''S14F6'', JObj [(''OBJID'', JStr ''WaferMap_01''), (''OBJTYPE'', JStr ''SubstrateMap'')]),
      (''S14F12'', JObj [(''OBJID'', JStr ''WaferMap_01''), (''OBJTYPE'', JStr ''SubstrateMap''),
                        (''ERRCODE'', JNum 0 0),
                        (''ATTRID'', JArr [JStr ''BinMap'', JStr ''Layout'', JStr ''DimensionX'',
                                          JStr ''DimensionY'', JStr ''ProcessState''])]),
      (''S14F14'', JObj [(''OBJID'', JStr ''WaferMap_01''), (''ATTRID'', JArr [JStr ''ProcessState'']),
                        (''RAC'', JNum 0 0), (''ERRCODE'', JNum 0 0)])]"

subsection \<open>The engine: runScenario\<close>

text \<open>
  \<^verbatim>\<open>resolveBody\<close>: a falsy body is returned as it is; otherwise the body is serialised,
  every entry of the parameter map is substituted in the text in the order of
  \<^verbatim>\<open>Object.entries\<close>, and the text is parsed. \<open>Inl\<close> is the exception that the
  \<^verbatim>\<open>try\<close> of the loop catches.
\<close>

definition substituteParameters :: "(string \<times> string) list \<Rightarrow> string \<Rightarrow> string" where
  "substituteParameters pv str = foldl (\<lambda>acc kv. replaceAll (fst kv) (snd kv) acc) str pv"

definition resolveBody :: "(string \<times> string) list \<Rightarrow> json \<Rightarrow> js_error + json" where
  "resolveBody pv b =
     (if \<not> truthy b then Inr b
      else JSON_parse (substituteParameters pv (JSON_stringify b)))"

text \<open>
  The source keeps no value for the outcome of a step: a step shows in the transcript and
  in the flag \<^verbatim>\<open>allPassed\<close>. The model labels each branch of the loop body with the
  outcome that the specification names for it (\<open>StepOutcome\<close>), beside what the branch
  does; \<open>NoReplyRequired\<close> is the neutral outcome. \<open>flow\<close> is how the branch leaves the
  loop body: \<^verbatim>\<open>break\<close>, or on to the next step.
\<close>

datatype StepOutcome =
  Acknowledged json | TimedOut | MalformedTemplate | NoOracleEntry | NoReplyRequired

datatype flow = Continue | Break

definition sxfyOf :: "SecsMessage \<Rightarrow> string" where
  "sxfyOf msg = ''S'' @ digitsOf (stream msg) @ ''F'' @ digitsOf (func msg)"

definition timeoutMs :: "TestStep \<Rightarrow> number" where
  "timeoutMs step = (case timeout step of None \<Rightarrow> Finite 10000 0 | Some t \<Rightarrow> t)"

definition simulateDelayMs :: "TestStep \<Rightarrow> number" where
  "simulateDelayMs step = (case simulateDelay step of None \<Rightarrow> Finite 600 0 | Some d \<Rightarrow> d)"

text \<open>
  \<^verbatim>\<open>expectedResponse && MOCK_RESPONSES[expectedResponse]\<close>: the entry of a declared,
  non-empty identifier when the table has a truthy one. The table is read by the keys it
  declares; an identifier that names a member of \<^verbatim>\<open>Object.prototype\<close> is not modelled.
\<close>

definition mockResponse :: "TestStep \<Rightarrow> json option" where
  "mockResponse step =
     (case expectedResponseSxFy step of
        None \<Rightarrow> None
      | Some er \<Rightarrow>
          if er = [] then None
          else (case map_of MOCK_RESPONSES er of
                  None \<Rightarrow> None
                | Some payload \<Rightarrow> if truthy payload then Some payload else None))"

definition respond :: "TestStep \<Rightarrow> bool \<Rightarrow> AppState \<Rightarrow> StepOutcome \<times> bool \<times> AppState" where
  "respond step allPassed s =
     (case mockResponse step of
        Some payload \<Rightarrow>
          (Acknowledged payload, allPassed,
           addLog EQP_TO_HOST (the (expectedResponseSxFy step) @ '' Response'') payload LogSuccess s)
      | None \<Rightarrow>
          if expectedResponseSxFy step \<noteq> None \<and> expectedResponseSxFy step \<noteq> Some [] then
            (Acknowledged (JObj [(''ACK'', JNum 0 0)]), allPassed,
             addLog EQP_TO_HOST (the (expectedResponseSxFy step) @ '' Ack'')
               (JObj [(''ACK'', JNum 0 0)]) LogSuccess s)
          else if waitBit (messageToSend step) then
            (NoOracleEntry, False,
             addLog ERROR (''No Mock Response defined for '' @ sxfyOf (messageToSend step))
               (JObj []) LogError s)
          else (NoReplyRequired, allPassed, s))"

definition runStep :: "nat \<Rightarrow> TestStep \<Rightarrow> bool \<Rightarrow> AppState
    \<Rightarrow> flow \<times> StepOutcome \<times> bool \<times> AppState" where
  "runStep i step allPassed s0 =
     (let s = s0\<lparr>runningStep := Some i\<rparr>;
          msg = messageToSend step
      in case resolveBody (paramValues s) (body msg) of
           Inl e \<Rightarrow>
             (Break, MalformedTemplate, False,
              addLog ERROR (''Failed to parse message body for '' @ stepName step)
                (JObj [(''error'', JStr (errorToString e))]) LogError s)
         | Inr msgBody \<Rightarrow>
             let s1 = addLog HOST_TO_EQP
                        (sxfyOf msg @ '' '' @ msgName msg @ '' ''
                           @ (if waitBit msg then ''[W]'' else []))
                        msgBody LogInfo s
             in if waitBit msg \<and> numberGreater (simulateDelayMs step) (timeoutMs step) then
                  (Continue, TimedOut, False,
                   sleep (Finite 500 0)
                     (addLog ERROR
                        (''T3 Timeout: No response received within ''
                           @ Number_toString (timeoutMs step) @ ''ms (Simulated Delay: ''
                           @ Number_toString (simulateDelayMs step) @ ''ms)'')
                        (JObj []) LogError (sleep (timeoutMs step) s1)))
                else
                  (case respond step allPassed (sleep (simulateDelayMs step) s1) of
                     (outcome, allPassed', s2) \<Rightarrow>
                       (Continue, outcome, allPassed', sleep (Finite 800 0) s2)))"

text \<open>The \<^verbatim>\<open>for\<close> loop over the steps, from index \<open>i\<close>, with the outcomes in step order.\<close>

fun runSteps :: "nat \<Rightarrow> TestStep list \<Rightarrow> bool \<Rightarrow> AppState
    \<Rightarrow> StepOutcome list \<times> bool \<times> AppState" where
  "runSteps i [] allPassed s = ([], allPassed, s)"
| "runSteps i (step # rest) allPassed s =
     (case runStep i step allPassed s of
        (Break, outcome, allPassed', s') \<Rightarrow> ([outcome], allPassed', s')
      | (Continue, outcome, allPassed', s') \<Rightarrow>
          (case runSteps (i + 1) rest allPassed' s' of
             (outcomes, allPassed'', s'') \<Rightarrow> (outcome # outcomes, allPassed'', s'')))"

definition started :: "TestScenario \<Rightarrow> AppState \<Rightarrow> AppState" where
  "started scenario s =
     addLog INFO (''Starting Scenario: '' @ title scenario) (JObj []) LogInfo
       (s\<lparr>runningStep := Some 0\<rparr>)"

definition finish :: "TestScenario \<Rightarrow> bool \<Rightarrow> AppState \<Rightarrow> AppState" where
  "finish scenario allPassed s =
     (let s1 = s\<lparr>runningStep := None\<rparr>;
          result = \<lparr>scenarioId = title scenario, timestamp = now s1, passed = allPassed,
                    resultNotes = (if allPassed then ''All steps completed successfully.''
                                   else ''Scenario failed due to errors or timeouts.'')\<rparr>
      in addLog INFO (''Scenario Complete: '' @ (if allPassed then ''PASSED'' else ''FAILED''))
           (JObj []) (if allPassed then LogSuccess else LogError)
           (s1\<lparr>results := result # results s1\<rparr>))"

definition runScenario :: "TestScenario \<Rightarrow> AppState \<Rightarrow> AppState" where
  "runScenario scenario s =
     (if runningStep s \<noteq> None then s
      else if validationErrors s \<noteq> [] then
        addLog ERROR ''Execution Blocked: Fix invalid parameters.''
          (JObj (map (\<lambda>kv. (fst kv, JStr (snd kv))) (validationErrors s))) LogError s
      else
        (case runSteps 0 (steps scenario) True (started scenario s) of
           (outcomes, allPassed, s') \<Rightarrow> finish scenario allPassed s'))"

text \<open>The outcomes of the steps that a run executes, in step order.\<close>

definition stepOutcomes :: "TestScenario \<Rightarrow> AppState \<Rightarrow> StepOutcome list" where
  "stepOutcomes scenario s = fst (runSteps 0 (steps scenario) True (started scenario s))"

subsection \<open>The other handlers\<close>

definition clearLogs :: "AppState \<Rightarrow> AppState" where
  "clearLogs s = s\<lparr>logs := [], results := []\<rparr>"

definition handleExportScenarios :: "AppState \<Rightarrow> AppState" where
  "handleExportScenarios s = addLog INFO ''Scenarios exported successfully.'' (JObj []) LogSuccess s"

text \<open>
  \<^verbatim>\<open>handleImportScenarios\<close> on the text of the chosen file (\<open>None\<close>: no file was chosen,
  or the reader gave no text).
\<close>

definition handleImportScenarios :: "string option \<Rightarrow> AppState \<Rightarrow> AppState" where
  "handleImportScenarios file s =
     (case file of
        None \<Rightarrow> s
      | Some text \<Rightarrow>
          (case JSON_parse text of
             Inl err \<Rightarrow>
               addLog ERROR ''Import failed: Could not parse JSON.''
                 (JObj [(''error'', JStr (errorToString err))]) LogError s
           | Inr (JArr imported) \<Rightarrow>
               addLog INFO (''Imported '' @ digitsOf (length imported) @ '' scenarios successfully.'')
                 (JObj []) LogSuccess
                 (setSelectedScenario None (s\<lparr>scenarios := imported\<rparr>))
           | Inr other \<Rightarrow>
               addLog ERROR ''Import failed: Invalid JSON format. Expected an array.''
                 (JObj []) LogError s))"

text \<open>What a caller can ask of the component.\<close>

datatype action =
    RunScenario TestScenario
  | ClearLogs
  | ExportScenarios
  | ImportScenarios "string option"
  | ParamChange ScenarioParameter string
  | SelectScenario "TestScenario option"

fun perform :: "action \<Rightarrow> AppState \<Rightarrow> AppState" where
  "perform (RunScenario scenario) s = runScenario scenario s"
| "perform ClearLogs s = clearLogs s"
| "perform ExportScenarios s = handleExportScenarios s"
| "perform (ImportScenarios file) s = handleImportScenarios file s"
| "perform (ParamChange param v) s = handleParamChange param v s"
| "perform (SelectScenario sel) s = setSelectedScenario sel s"

text \<open>The outcomes that leave the flag \<^verbatim>\<open>allPassed\<close> as it is.\<close>

fun passing :: "StepOutcome \<Rightarrow> bool" where
  "passing (Acknowledged payload) = True"
| "passing NoReplyRequired = True"
| "passing outcome = False"

subsection \<open>Well-formed bodies\<close>

text \<open>
  A JSON value as a JavaScript object graph holds it: the keys of an object are distinct
  and in property order (the array-index keys first, ascending), and a number is a
  decimal \<open>m / 10 ^ s\<close> with the smallest scale \<open>s\<close>, as the lexer produces it.
\<close>

fun objectOrdered :: "string list \<Rightarrow> bool" where
  "objectOrdered [] = True"
| "objectOrdered [k] = True"
| "objectOrdered (k # k' # ks) =
     ((if isArrayIndex k' then isArrayIndex k \<and> digitsValue k < digitsValue k' else True)
      \<and> objectOrdered (k' # ks))"

fun wellFormed :: "json \<Rightarrow> bool"
  and wellFormedElements :: "json list \<Rightarrow> bool"
  and wellFormedMembers :: "(string \<times> json) list \<Rightarrow> bool" where
  "wellFormed JNull = True"
| "wellFormed (JBool b) = True"
| "wellFormed (JNum m s) = (s = 0 \<or> m mod 10 \<noteq> 0)"
| "wellFormed (JStr s) = True"
| "wellFormed (JArr xs) = wellFormedElements xs"
| "wellFormed (JObj ms) =
     (distinct (map fst ms) \<and> objectOrdered (map fst ms) \<and> wellFormedMembers ms)"
| "wellFormedElements [] = True"
| "wellFormedElements (x # xs) = (wellFormed x \<and> wellFormedElements xs)"
| "wellFormedMembers [] = True"
| "wellFormedMembers ((k, v) # ms) = (wellFormed v \<and> wellFormedMembers ms)"

text \<open>The tokens of the text that \<^verbatim>\<open>JSON.stringify\<close> writes for a value.\<close>

fun tokensOf :: "json \<Rightarrow> token list"
  and tokensOfElements :: "json list \<Rightarrow> token list"
  and tokensOfMembers :: "(string \<times> json) list \<Rightarrow> token list" where
  "tokensOf JNull = [TNull]"
| "tokensOf (JBool b) = [if b then TTrue else TFalse]"
| "tokensOf (JNum m s) = [TNumber m s]"
| "tokensOf (JStr s) = [TString s]"
| "tokensOf (JArr xs) = TLBrack # tokensOfElements xs @ [TRBrack]"
| "tokensOf (JObj ms) = TLBrace # tokensOfMembers ms @ [TRBrace]"
| "tokensOfElements [] = []"
| "tokensOfElements [x] = tokensOf x"
| "tokensOfElements (x # y # xs) = tokensOf x @ TComma # tokensOfElements (y # xs)"
| "tokensOfMembers [] = []"
| "tokensOfMembers [(k, v)] = TString k # TColon # tokensOf v"
| "tokensOfMembers ((k, v) # m # ms) =
     TString k # TColon # tokensOf v @ TComma # tokensOfMembers (m # ms)"

text \<open>What follows a value in a JSON text: nothing, a comma or a closing bracket.\<close>

definition valueEnd :: "string \<Rightarrow> bool" where
  "valueEnd rest = (rest = [] \<or> hd rest = CHR '','' \<or> hd rest = CHR '']'' \<or> hd rest = CHR ''}'')"

text \<open>A text that does not go on with a digit.\<close>

definition digitFree :: "string \<Rightarrow> bool" where
  "digitFree t = (t = [] \<or> \<not> isDigit (hd t))"


subsection \<open>Entries of the catalog (constants.ts)\<close>

definition e9_timeout :: TestScenario where
  "e9_timeout =
     \<lparr>scenarioIdent = ''e9-timeout'',
      title = ''E9: Timeout Handling (Negative Test)'',
      standard = E9,
      description = ''Demonstrates T3 Timeout behavior. The second step is configured to fail (Simulated Delay > Timeout).'',
      parameters = None,
      steps =
        [\<lparr>stepName = ''Normal Ping'',
          stepDescription = ''Standard latency (500ms). Timeout is 5s. Should Pass.'',
          messageToSend = \<lparr>stream = 1, func = 1, waitBit = True, msgName = ''Are You There'',
                             body = JObj []\<rparr>,
          expectedResponseSxFy = Some ''S1F2'', simulateDelay = Some (Finite 500 0), timeout = Some (Finite 5000 0)\<rparr>,
         \<lparr>stepName = ''Slow Response (Fail)'',
          stepDescription = ''Equipment takes 8s to respond, but Timeout is set to 2s. Should Fail.'',
          messageToSend = \<lparr>stream = 1, func = 13, waitBit = True, msgName = ''Establish Comm'',
                             body = JObj [(''COMMACK'', JNum 0 0)]\<rparr>,
          expectedResponseSxFy = Some ''S1F14'', simulateDelay = Some (Finite 8000 0), timeout = Some (Finite 2000 0)\<rparr>]\<rparr>"

definition OBJID_parameter :: ScenarioParameter where
  "OBJID_parameter =
     \<lparr>key = ''OBJID'', label = ''Object ID'', defaultValue = ''WaferMap_01'',
      paramDescription = Some ''Target Object Identifier'', paramType = Some STRING,
      options = None, minValue = None, maxValue = None\<rparr>"

definition ATTRID_parameter :: ScenarioParameter where
  "ATTRID_parameter =
     \<lparr>key = ''ATTRID'', label = ''Attribute ID'', defaultValue = ''BinMap'',
      paramDescription = Some ''Attribute to query/set'', paramType = Some STRING,
      options = None, minValue = None, maxValue = None\<rparr>"

definition NEWVAL_parameter :: ScenarioParameter where
  "NEWVAL_parameter =
     \<lparr>key = ''NEWVAL'', label = ''Set Value'', defaultValue = ''100'',
      paramDescription = Some ''Value for SetAttr (S14F3)'', paramType = Some NUMBER,
      options = None, minValue = Some (Finite 0 0), maxValue = Some (Finite 9999 0)\<rparr>"

definition e142_obj_services :: TestScenario where
  "e142_obj_services =
     \<lparr>scenarioIdent = ''e142-obj-services'',
      title = ''E142: Object Services (S14)'',
      standard = E142,
      description = ''Test Object Services (GetAttr, SetAttr, GetType) with configurable parameters for S14 commands.'',
      parameters = Some [OBJID_parameter, ATTRID_parameter, NEWVAL_parameter],
      steps =
        [\<lparr>stepName = ''Get Attribute (S14F1)'',
          stepDescription = ''Get specified attribute value.'',
          messageToSend =
            \<lparr>stream = 14, func = 1, waitBit = True, msgName = ''GetAttr'',
             body = JObj [(''OBJID'', JStr ''{{OBJID}}''), (''OBJTYPE'', JStr ''SubstrateMap''),
                          (''ATTRID'', JArr [JStr ''{{ATTRID}}''])]\<rparr>,
          expectedResponseSxFy = Some ''S14F2'', simulateDelay = None, timeout = Some (Finite 10000 0)\<rparr>,
         \<lparr>stepName = ''Set Attribute (S14F3)'',
          stepDescription = ''Set specified attribute value.'',
          messageToSend =
            \<lparr>stream = 14, func = 3, waitBit = True, msgName = ''SetAttr'',
             body = JObj [(''OBJID'', JStr ''{{OBJID}}''), (''OBJTYPE'', JStr ''SubstrateMap''),
                          (''ATTRID'', JStr ''{{ATTRID}}''), (''ATTRDATA'', JStr ''{{NEWVAL}}'')]\<rparr>,
          expectedResponseSxFy = Some ''S14F4'', simulateDelay = None, timeout = Some (Finite 10000 0)\<rparr>,
         \<lparr>stepName = ''Get Type (S14F5)'',
          stepDescription = ''Get type of the object.'',
          messageToSend =
            \<lparr>stream = 14, func = 5, waitBit = True, msgName = ''GetType'',
             body = JObj [(''OBJID'', JStr ''{{OBJID}}'')]\<rparr>,
          expectedResponseSxFy = Some ''S14F6'', simulateDelay = None, timeout = Some (Finite 5000 0)\<rparr>]\<rparr>"

text \<open>
  A session with an empty catalog in which nothing has been logged, selected or run (the
  state after importing an empty array and clearing the session, at time \<open>0\<close>).
\<close>

definition blankState :: AppState where
  "blankState =
     \<lparr>scenarios = [], selectedScenario = None, logs = [], results = [], runningStep = None,
      paramValues = [], validationErrors = [], now = 0, idsDrawn = 0\<rparr>"

text \<open>
  The user selects the catalog's Object Services scenario and types \<^verbatim>\<open>a"b\<close> as the
  object id.
\<close>

definition quotedObjectId :: string where
  "quotedObjectId = ''a'' @ [CHR 0x22] @ ''b''"

definition quotedObjectIdState :: AppState where
  "quotedObjectIdState =
     handleParamChange OBJID_parameter quotedObjectId
       (setSelectedScenario (Some e142_obj_services) blankState)"

text \<open>
  The directions of the entries that the loop body adds to the transcript for a step
  whose body resolves, in the order of its branches.
\<close>

definition stepDirections :: "TestStep \<Rightarrow> MessageDirection list" where
  "stepDirections step =
     (if waitBit (messageToSend step) \<and> numberGreater (simulateDelayMs step) (timeoutMs step)
        then [HOST_TO_EQP, ERROR]
      else if expectedResponseSxFy step \<noteq> None \<and> expectedResponseSxFy step \<noteq> Some []
        then [HOST_TO_EQP, EQP_TO_HOST]
      else if waitBit (messageToSend step) then [HOST_TO_EQP, ERROR]
      else [HOST_TO_EQP])"

text \<open>
  A scenario with zero parameters, as an import can supply it, and a template with a
  placeholder for a key that no parameter declares.
\<close>

definition slowAndUnsolicited :: TestScenario where
  "slowAndUnsolicited =
     \<lparr>scenarioIdent = ''slow-and-unsolicited'',
      title = ''Slow reply, then a message without wait bit'',
      standard = GENERIC,
      description = ''A reply that comes too late, then a reply to a message that asked for none.'',
      parameters = None,
      steps =
        [\<lparr>stepName = ''Get Attribute, slow'',
          stepDescription = ''The equipment takes 8s, the host waits 2s.'',
          messageToSend = \<lparr>stream = 14, func = 1, waitBit = True, msgName = ''GetAttr'',
                             body = JObj [(''OBJID'', JStr ''WaferMap_01'')]\<rparr>,
          expectedResponseSxFy = Some ''S14F2'', simulateDelay = Some (Finite 8000 0), timeout = Some (Finite 2000 0)\<rparr>,
         \<lparr>stepName = ''Get Attribute, no wait bit'',
          stepDescription = ''No reply is asked for, one is configured.'',
          messageToSend = \<lparr>stream = 14, func = 1, waitBit = False, msgName = ''GetAttr'',
                             body = JObj [(''OBJID'', JStr ''WaferMap_01'')]\<rparr>,
          expectedResponseSxFy = Some ''S14F2'', simulateDelay = None, timeout = None\<rparr>]\<rparr>"



section \<open>Reading back what JSON.stringify writes\<close>

text \<open>
  For a well-formed body, \<^verbatim>\<open>JSON.parse(JSON.stringify(body))\<close> succeeds and gives the
  body back: first the lexer on the text of a value (\<open>lex_stringify\<close>), then the
  parser on its tokens (\<open>parse_tokensOf\<close>).
\<close>

lemma digit_cases: "d < 10 \<Longrightarrow> d = 0 \<or> d = 1 \<or> d = 2 \<or> d = 3 \<or> d = 4 \<or> d = 5 \<or> d = 6 \<or> d = 7 \<or> d = 8 \<or> d = (9::nat)"
  by arith

lemma hex_cases: "d < 16 \<Longrightarrow> d < 10 \<or> d = 10 \<or> d = 11 \<or> d = 12 \<or> d = 13 \<or> d = 14 \<or> d = (15::nat)"
  by arith

lemma digitChar_digit:
  assumes "d < 10"
  shows "isDigit (digitChar d)" and "digitVal (digitChar d) = d"
    and "(digitChar d = CHR ''0'') = (d = 0)"
  using digit_cases [OF assms] by (auto simp: digitChar_def isDigit_def digitVal_def)

lemma hexVal_digitChar: "d < 16 \<Longrightarrow> hexVal (digitChar d) = Some d"
  using hex_cases [of d] digit_cases [of d]
  by (auto simp: digitChar_def hexVal_def isDigit_def digitVal_def)

lemma digitsOf_digits: "list_all isDigit (digitsOf n)"
  by (induction n rule: digitsOf.induct) (subst digitsOf.simps, simp add: digitChar_digit)

lemma digitsOf_nonempty: "digitsOf n \<noteq> []"
  by (subst digitsOf.simps) simp

lemma digitsValue_snoc: "digitsValue (ds @ [c]) = 10 * digitsValue ds + digitVal c"
  by (simp add: digitsValue_def)

lemma digitsValue_digitsOf: "digitsValue (digitsOf n) = n"
proof (induction n rule: digitsOf.induct)
  case (1 n)
  show ?case
  proof (cases "n < 10")
    case True
    then show ?thesis
      by (subst digitsOf.simps) (simp add: digitsValue_def digitChar_digit)
  next
    case False
    with 1 show ?thesis
      by (subst digitsOf.simps) (simp add: digitsValue_snoc digitChar_digit)
  qed
qed

lemma digitsOf_leading: "hd (digitsOf n) = CHR ''0'' \<Longrightarrow> n = 0"
proof (induction n rule: digitsOf.induct)
  case (1 n)
  show ?case
  proof (cases "n < 10")
    case True
    with "1.prems" show ?thesis
      by (subst (asm) digitsOf.simps) (simp add: digitChar_digit)
  next
    case False
    with "1.prems" have "hd (digitsOf (n div 10)) = CHR ''0''"
      by (subst (asm) digitsOf.simps) (simp add: digitsOf_nonempty)
    with 1 False have "n div 10 = 0" by simp
    with False show ?thesis by simp
  qed
qed

lemma digitsOf_zero: "digitsOf 0 = ''0''"
  by (subst digitsOf.simps) (simp add: digitChar_def)

lemma stripTrailingZeros_pad:
  "stripTrailingZeros ds @ replicate (length ds - length (stripTrailingZeros ds)) (CHR ''0'') = ds"
proof -
  let ?P = "\<lambda>c. c = CHR ''0''"
  have t: "takeWhile ?P (rev ds) = replicate (length (takeWhile ?P (rev ds))) (CHR ''0'')"
    by (rule replicate_length_same [symmetric]) (auto dest: set_takeWhileD)
  have "rev ds = takeWhile ?P (rev ds) @ dropWhile ?P (rev ds)" by simp
  then have "rev (rev ds) = rev (takeWhile ?P (rev ds) @ dropWhile ?P (rev ds))"
    by (rule arg_cong)
  then have "ds = rev (dropWhile ?P (rev ds)) @ rev (takeWhile ?P (rev ds))"
    by (simp only: rev_rev_ident rev_append)
  also have "rev (takeWhile ?P (rev ds)) = replicate (length (takeWhile ?P (rev ds))) (CHR ''0'')"
    by (subst t) simp
  finally have e: "ds = stripTrailingZeros ds @ replicate (length (takeWhile ?P (rev ds))) (CHR ''0'')"
    by (simp add: stripTrailingZeros_def)
  have "length ds = length (takeWhile ?P (rev ds)) + length (dropWhile ?P (rev ds))"
    by (metis length_append length_rev takeWhile_dropWhile_id)
  then have "length ds - length (stripTrailingZeros ds) = length (takeWhile ?P (rev ds))"
    by (simp add: stripTrailingZeros_def)
  with e show ?thesis by simp
qed

lemma valueEnd_digitFree: "valueEnd t \<Longrightarrow> digitFree t"
  by (auto simp: valueEnd_def digitFree_def isDigit_def)

lemma span_digits:
  assumes "list_all isDigit ds" and "digitFree t"
  shows "takeWhile isDigit (ds @ t) = ds" and "dropWhile isDigit (ds @ t) = t"
proof -
  have a: "\<forall>c \<in> set ds. isDigit c" using assms(1) by (simp add: list_all_iff)
  show "takeWhile isDigit (ds @ t) = ds"
    using assms(2) a
    by (cases t) (simp_all add: digitFree_def takeWhile_append2 takeWhile_eq_all_conv [THEN iffD2])
  show "dropWhile isDigit (ds @ t) = t"
    using assms(2) a by (cases t) (simp_all add: digitFree_def dropWhile_append2)
qed

lemma digitsValue_append:
  "digitsValue (xs @ ys) = digitsValue xs * 10 ^ length ys + digitsValue ys"
proof (induction ys rule: rev_induct)
  case Nil
  then show ?case by (simp add: digitsValue_def)
next
  case (snoc y ys)
  have "digitsValue (xs @ ys @ [y]) = 10 * digitsValue (xs @ ys) + digitVal y"
    using digitsValue_snoc [of "xs @ ys" y] by simp
  with snoc show ?case by (simp add: digitsValue_snoc algebra_simps)
qed

lemma digitsValue_zeros: "digitsValue (replicate z (CHR ''0'')) = 0"
  by (induction z) (simp_all add: digitsValue_def digitVal_def foldl_conv_fold)

lemma lexFraction_none: "t = [] \<or> hd t \<noteq> CHR ''.'' \<Longrightarrow> lexFraction t = Some ([], t)"
  by (cases t) (auto simp: lexFraction_def)

lemma lexFraction_some:
  "list_all isDigit fd \<Longrightarrow> fd \<noteq> [] \<Longrightarrow> digitFree t \<Longrightarrow>
     lexFraction (CHR ''.'' # fd @ t) = Some (fd, t)"
  by (simp add: lexFraction_def span_digits)

lemma lexExponent_none:
  "t = [] \<or> (hd t \<noteq> CHR ''e'' \<and> hd t \<noteq> CHR ''E'') \<Longrightarrow> lexExponent t = Some (0, t)"
  by (cases t) (auto simp: lexExponent_def)

lemma lexExponent_signed:
  assumes "digitFree t"
  shows "lexExponent (''e+'' @ digitsOf x @ t) = Some (int x, t)"
    and "lexExponent (''e-'' @ digitsOf x @ t) = Some (- int x, t)"
  using span_digits [OF digitsOf_digits assms, of x] digitsOf_nonempty [of x]
  by (simp_all add: lexExponent_def lexSign_def digitsValue_digitsOf)

lemma lexNumber_parts:
  assumes ip: "list_all isDigit ip" "ip \<noteq> []" "\<not> (hd ip = CHR ''0'' \<and> 1 < length ip)"
    and t1: "digitFree afterInt"
    and fr: "lexFraction afterInt = Some (fd, afterFrac)"
    and ex: "lexExponent afterFrac = Some (e, rest)"
  shows "lexNumber ((if neg then ''-'' else []) @ ip @ afterInt) = Some (decimalOf neg ip fd e, rest)"
proof -
  have nd: "hd (ip @ afterInt) \<noteq> CHR ''-''"
    using ip(1,2) by (cases ip) (auto simp: isDigit_def)
  show ?thesis
  proof (cases neg)
    case True
    with ip fr ex span_digits [OF ip(1) t1] show ?thesis
      by (simp add: lexNumber_def Let_def)
  next
    case False
    with ip fr ex span_digits [OF ip(1) t1] nd show ?thesis
      by (simp add: lexNumber_def Let_def)
  qed
qed

lemma last_digitsOf: "last (digitsOf n) = digitChar (n mod 10)"
  by (subst digitsOf.simps) simp

lemma stripTrailingZeros_id: "n mod 10 \<noteq> 0 \<Longrightarrow> stripTrailingZeros (digitsOf n) = digitsOf n"
proof -
  assume a: "n mod 10 \<noteq> 0"
  have "last (digitsOf n) \<noteq> CHR ''0''"
    using a digitChar_digit(3) [of "n mod 10"] by (simp add: last_digitsOf)
  then have "hd (rev (digitsOf n)) \<noteq> CHR ''0''"
    by (simp add: hd_rev)
  moreover have "rev (digitsOf n) \<noteq> []" by (simp add: digitsOf_nonempty)
  ultimately have "dropWhile (\<lambda>c. c = CHR ''0'') (rev (digitsOf n)) = rev (digitsOf n)"
    by (cases "rev (digitsOf n)") simp_all
  then show ?thesis by (simp add: stripTrailingZeros_def)
qed

lemma significant_digits:
  assumes "0 < n"
  defines "ds \<equiv> digitsOf n" and "sig \<equiv> stripTrailingZeros (digitsOf n)"
  shows "ds = sig @ replicate (length ds - length sig) (CHR ''0'')"
    and "sig \<noteq> []" and "hd sig \<noteq> CHR ''0''" and "list_all isDigit sig"
    and "length sig \<le> length ds"
    and "digitsValue sig * 10 ^ (length ds - length sig) = n"
    and "hd ds \<noteq> CHR ''0''"
proof -
  show pad: "ds = sig @ replicate (length ds - length sig) (CHR ''0'')"
    unfolding ds_def sig_def by (rule stripTrailingZeros_pad [symmetric])
  show lead: "hd ds \<noteq> CHR ''0''"
    using assms(1) digitsOf_leading [of n] by (auto simp: ds_def)
  have ne: "ds \<noteq> []" by (simp add: ds_def digitsOf_nonempty)
  show s: "sig \<noteq> []"
  proof
    assume "sig = []"
    with pad have "ds = replicate (length ds) (CHR ''0'')" by simp
    with ne have "hd ds = CHR ''0''" by (cases "length ds") (auto simp: hd_replicate)
    with lead show False by simp
  qed
  from pad s have "hd ds = hd sig" by (metis hd_append)
  with lead show "hd sig \<noteq> CHR ''0''" by simp
  have "list_all isDigit ds" by (simp add: ds_def digitsOf_digits)
  with pad show "list_all isDigit sig" by (metis list_all_append)
  show "length sig \<le> length ds" using pad by (metis length_append le_add1)
  have "digitsValue ds = digitsValue sig * 10 ^ (length ds - length sig)"
    by (subst pad) (simp add: digitsValue_append digitsValue_zeros)
  then show "digitsValue sig * 10 ^ (length ds - length sig) = n"
    by (simp add: ds_def digitsValue_digitsOf)
qed

lemma normalizeDecimal_id: "s = 0 \<or> n mod 10 \<noteq> 0 \<Longrightarrow> normalizeDecimal n s = (n, s)"
  by (subst normalizeDecimal.simps) auto

lemma abs_mod_10: "(m::int) mod 10 \<noteq> 0 \<Longrightarrow> nat \<bar>m\<bar> mod 10 \<noteq> 0"
proof
  assume a: "m mod 10 \<noteq> 0" and "nat \<bar>m\<bar> mod 10 = 0"
  then have "10 dvd nat \<bar>m\<bar>" by (simp add: mod_eq_0_iff_dvd)
  then have "int 10 dvd int (nat \<bar>m\<bar>)" by (simp only: int_dvd_int_iff)
  then have "10 dvd m" by simp
  with a show False by (simp add: mod_eq_0_iff_dvd)
qed

lemma signed_value: "(if m < 0 then - int (nat \<bar>m\<bar>) else int (nat \<bar>m\<bar>)) = m"
  by simp

lemma decimalOf_plain:
  assumes "digitsValue (ip @ fd) = n" and "length fd = s" and "s = 0 \<or> n mod 10 \<noteq> 0"
  shows "decimalOf neg ip fd 0 = (if neg then - int n else int n, s)"
proof -
  have a: "applyExponent (digitsValue (ip @ fd)) (length fd) 0 = (n, s)"
    using assms(1,2) by (auto simp: applyExponent_def)
  have b: "normalizeDecimal n s = (n, s)" using assms(3) by (rule normalizeDecimal_id)
  show ?thesis by (simp add: decimalOf_def a b)
qed

lemma lexNumber_numberToString:
  assumes norm: "s = 0 \<or> m mod 10 \<noteq> 0" and e: "valueEnd rest"
  shows "lexNumber (numberToString m s @ rest) = Some ((m, s), rest)"
proof (cases "m = 0")
  case True
  with norm have s: "s = 0" by simp
  have "lexNumber ((if False then ''-'' else []) @ ''0'' @ rest)
      = Some (decimalOf False ''0'' [] 0, rest)"
  proof (rule lexNumber_parts [where afterFrac = rest])
    show "digitFree rest" using e by (rule valueEnd_digitFree)
    show "lexFraction rest = Some ([], rest)"
      using e by (intro lexFraction_none) (auto simp: valueEnd_def)
    show "lexExponent rest = Some (0, rest)"
      using e by (intro lexExponent_none) (auto simp: valueEnd_def)
  qed (simp_all add: isDigit_def)
  moreover have "decimalOf False ''0'' [] 0 = (0, 0)"
    by (simp add: decimalOf_def applyExponent_def normalizeDecimal_id digitsValue_def digitVal_def)
  ultimately show ?thesis using True s by (simp add: numberToString_def)
next
  case False
  define n0 where "n0 = nat \<bar>m\<bar>"
  define ds where "ds = digitsOf n0"
  define sig where "sig = stripTrailingZeros (digitsOf n0)"
  define L where "L = length ds"
  define k where "k = length sig"
  define n where "n = int L - int s"
  define neg where "neg = (m < 0)"
  define sgn where "sgn = (if neg then ''-'' else [])"
  from False have pos: "0 < n0" by (simp add: n0_def)
  note sd = significant_digits [OF pos, folded ds_def sig_def, folded L_def k_def]
  have dsd: "list_all isDigit ds" by (simp add: ds_def digitsOf_digits)
  have Lpos: "0 < L" by (simp add: L_def ds_def digitsOf_nonempty)
  have kpos: "0 < k" using sd(2) by (simp add: k_def)
  have kL: "k \<le> L" using sd(5) .
  have val: "(if neg then - int n0 else int n0) = m" by (simp add: neg_def n0_def)
  have n0norm: "s = 0 \<or> n0 mod 10 \<noteq> 0" using norm abs_mod_10 [of m] by (auto simp: n0_def)
  have full: "sig = ds" "k = L" if "0 < s"
  proof -
    from that n0norm have "n0 mod 10 \<noteq> 0" by simp
    then show "sig = ds" unfolding sig_def ds_def by (rule stripTrailingZeros_id)
    then show "k = L" by (simp add: k_def L_def)
  qed
  have fe: "digitFree rest" using e by (rule valueEnd_digitFree)
  have ee: "rest = [] \<or> (hd rest \<noteq> CHR ''e'' \<and> hd rest \<noteq> CHR ''E'')"
    and ed: "rest = [] \<or> hd rest \<noteq> CHR ''.''"
    using e by (auto simp: valueEnd_def)
  have str: "numberToString m s = sgn @
          (if int k \<le> n \<and> n \<le> 21 then sig @ replicate (nat (n - int k)) (CHR ''0'')
           else if 0 < n \<and> n \<le> 21 then take (nat n) sig @ ''.'' @ drop (nat n) sig
           else if - 6 < n \<and> n \<le> 0 then ''0.'' @ replicate (nat (- n)) (CHR ''0'') @ sig
           else (if k = 1 then sig else take 1 sig @ ''.'' @ drop 1 sig)
                @ ''e'' @ (if n - 1 < 0 then ''-'' else ''+'') @ digitsOf (nat \<bar>n - 1\<bar>))"
    using False
    by (simp add: numberToString_def Let_def sgn_def neg_def n_def k_def L_def sig_def ds_def n0_def)
  consider (A) "int k \<le> n" "n \<le> 21"
    | (B) "\<not> int k \<le> n" "0 < n" "n \<le> 21"
    | (C) "- 6 < n" "n \<le> 0"
    | (D) "21 < n \<or> n \<le> - 6"
    by linarith
  then show ?thesis
  proof cases
    case A
    have s0: "s = 0"
    proof (rule ccontr)
      assume "s \<noteq> 0"
      then have "0 < s" by simp
      with full A(1) show False by (simp add: n_def)
    qed
    then have nL: "n = int L" by (simp add: n_def)
    have "sig @ replicate (nat (n - int k)) (CHR ''0'') = ds"
      using sd(1) kL by (simp add: nL nat_diff_distrib' L_def k_def)
    with A str have b: "numberToString m s @ rest = sgn @ ds @ rest" by simp
    have "lexNumber (sgn @ ds @ rest) = Some (decimalOf neg ds [] 0, rest)"
      unfolding sgn_def
    proof (rule lexNumber_parts [where afterFrac = rest])
      show "ds \<noteq> []" using Lpos by (simp add: L_def)
      show "\<not> (hd ds = CHR ''0'' \<and> 1 < length ds)" using sd(7) by simp
      show "lexFraction rest = Some ([], rest)" using ed by (rule lexFraction_none)
      show "lexExponent rest = Some (0, rest)" using ee by (rule lexExponent_none)
    qed (rule dsd fe)+
    moreover have "decimalOf neg ds [] 0 = (m, s)"
      using decimalOf_plain [of ds "[]" n0 s neg] s0 val
      by (simp add: ds_def digitsValue_digitsOf)
    ultimately show ?thesis using b by simp
  next
    case B
    have spos: "0 < s"
    proof (rule ccontr)
      assume "\<not> 0 < s"
      with B(1) kL show False by (simp add: n_def)
    qed
    note f = full [OF spos]
    define nn where "nn = nat n"
    from B have nn: "0 < nn" "nn < L" "int nn = n"
      using f by (simp_all add: nn_def n_def)
    have "numberToString m s @ rest = sgn @ take nn ds @ CHR ''.'' # drop nn ds @ rest"
      using str B f by (simp add: nn_def)
    moreover have "lexNumber (sgn @ take nn ds @ CHR ''.'' # drop nn ds @ rest)
        = Some (decimalOf neg (take nn ds) (drop nn ds) 0, rest)"
      unfolding sgn_def
    proof (rule lexNumber_parts [where afterFrac = rest])
      show "list_all isDigit (take nn ds)" using dsd by (auto simp: list_all_iff dest: in_set_takeD)
      show "take nn ds \<noteq> []" using nn Lpos by (simp add: L_def)
      show "\<not> (hd (take nn ds) = CHR ''0'' \<and> 1 < length (take nn ds))"
        using sd(7) nn by (simp add: hd_take)
      show "digitFree (CHR ''.'' # drop nn ds @ rest)" by (simp add: digitFree_def isDigit_def)
      have "list_all isDigit (drop nn ds)" using dsd by (auto simp: list_all_iff dest: in_set_dropD)
      moreover have "drop nn ds \<noteq> []" using nn by (simp add: L_def)
      ultimately show "lexFraction (CHR ''.'' # drop nn ds @ rest) = Some (drop nn ds, rest)"
        using fe by (rule lexFraction_some)
      show "lexExponent rest = Some (0, rest)" using ee by (rule lexExponent_none)
    qed
    moreover have "decimalOf neg (take nn ds) (drop nn ds) 0 = (m, s)"
    proof -
      have "length (drop nn ds) = s" using nn by (simp add: L_def [symmetric] n_def)
      moreover have "digitsValue (take nn ds @ drop nn ds) = n0"
        by (simp add: ds_def digitsValue_digitsOf)
      ultimately show ?thesis
        using decimalOf_plain [of "take nn ds" "drop nn ds" n0 s neg] n0norm val by simp
    qed
    ultimately show ?thesis by simp
  next
    case C
    have spos: "0 < s" using C Lpos by (simp add: n_def)
    note f = full [OF spos]
    define z where "z = nat (- n)"
    have zs: "z + L = s" using C by (simp add: z_def n_def)
    have "numberToString m s @ rest = sgn @ ''0'' @ CHR ''.'' # (replicate z (CHR ''0'') @ ds) @ rest"
    proof -
      have "\<not> (int k \<le> n \<and> n \<le> 21)" using C kpos by simp
      moreover have "\<not> (0 < n \<and> n \<le> 21)" using C by simp
      ultimately show ?thesis using str C f by (simp add: z_def)
    qed
    moreover have "lexNumber (sgn @ ''0'' @ CHR ''.'' # (replicate z (CHR ''0'') @ ds) @ rest)
        = Some (decimalOf neg ''0'' (replicate z (CHR ''0'') @ ds) 0, rest)"
      unfolding sgn_def
    proof (rule lexNumber_parts [where afterFrac = rest])
      show "list_all isDigit ''0''" by (simp add: isDigit_def)
      show "digitFree (CHR ''.'' # (replicate z (CHR ''0'') @ ds) @ rest)"
        by (simp add: digitFree_def isDigit_def)
      have "list_all isDigit (replicate z (CHR ''0''))"
        by (simp add: list_all_iff isDigit_def)
      with dsd have "list_all isDigit (replicate z (CHR ''0'') @ ds)" by simp
      moreover have "replicate z (CHR ''0'') @ ds \<noteq> []" using Lpos by (simp add: L_def)
      ultimately show "lexFraction (CHR ''.'' # (replicate z (CHR ''0'') @ ds) @ rest)
          = Some (replicate z (CHR ''0'') @ ds, rest)"
        using fe by (rule lexFraction_some)
      show "lexExponent rest = Some (0, rest)" using ee by (rule lexExponent_none)
    qed simp_all
    moreover have "decimalOf neg ''0'' (replicate z (CHR ''0'') @ ds) 0 = (m, s)"
    proof -
      have "length (replicate z (CHR ''0'') @ ds) = s" using zs by (simp add: L_def)
      moreover have "digitsValue (''0'' @ replicate z (CHR ''0'') @ ds) = n0"
        using digitsValue_append [of "''0'' @ replicate z (CHR ''0'')" ds]
          digitsValue_zeros [of "Suc z"]
        by (simp add: ds_def digitsValue_digitsOf)
      ultimately show ?thesis
        using decimalOf_plain [of "''0''" "replicate z (CHR ''0'') @ ds" n0 s neg] n0norm val
        by simp
    qed
    ultimately show ?thesis by simp
  next
    case D
    define x where "x = nat \<bar>n - 1\<bar>"
    define ex where "ex = n - 1"
    define et where "et = ''e'' @ (if n - 1 < 0 then ''-'' else ''+'') @ digitsOf x @ rest"
    obtain d fd where sig: "sig = d # fd" using sd(2) by (cases sig) auto
    have dn: "d \<noteq> CHR ''0''" and dd: "isDigit d" and fdd: "list_all isDigit fd"
      using sd(3,4) sig by simp_all
    have fdk: "length fd = k - 1" using sig by (simp add: k_def)
    have b: "numberToString m s @ rest = sgn @ [d] @ (if fd = [] then et else CHR ''.'' # fd @ et)"
    proof -
      have c: "(int k \<le> n \<and> n \<le> 21) = False" "(0 < n \<and> n \<le> 21) = False"
        "(- 6 < n \<and> n \<le> 0) = False"
        using D kpos by auto
      from str have "numberToString m s = sgn @ (if k = 1 then sig else take 1 sig @ ''.'' @ drop 1 sig)
                @ ''e'' @ (if n - 1 < 0 then ''-'' else ''+'') @ digitsOf (nat \<bar>n - 1\<bar>)"
        by (simp only: c if_False)
      moreover have "(if k = 1 then sig else take 1 sig @ ''.'' @ drop 1 sig)
          = [d] @ (if fd = [] then [] else CHR ''.'' # fd)"
        using sig fdk kpos by (cases fd) (simp_all add: k_def)
      ultimately show ?thesis by (simp add: et_def x_def)
    qed
    have ete: "lexExponent et = Some (ex, rest)"
    proof (cases "n - 1 < 0")
      case True
      then have "ex = - int x" by (simp add: ex_def x_def)
      with True lexExponent_signed(2) [OF fe, of x] show ?thesis by (simp add: et_def)
    next
      case False
      then have "ex = int x" by (simp add: ex_def x_def)
      with False lexExponent_signed(1) [OF fe, of x] show ?thesis by (simp add: et_def)
    qed
    have etf: "digitFree et" "et = [] \<or> hd et \<noteq> CHR ''.''"
      by (simp_all add: et_def digitFree_def isDigit_def)
    have l: "lexNumber (sgn @ [d] @ (if fd = [] then et else CHR ''.'' # fd @ et))
        = Some (decimalOf neg [d] fd ex, rest)"
    proof (cases "fd = []")
      case True
      have "lexNumber (sgn @ [d] @ et) = Some (decimalOf neg [d] [] ex, rest)"
        unfolding sgn_def
      proof (rule lexNumber_parts [where afterFrac = et])
        show "lexFraction et = Some ([], et)" using etf(2) by (rule lexFraction_none)
      qed (simp_all add: dd etf ete)
      with True show ?thesis by simp
    next
      case False
      have "lexNumber (sgn @ [d] @ CHR ''.'' # fd @ et) = Some (decimalOf neg [d] fd ex, rest)"
        unfolding sgn_def
      proof (rule lexNumber_parts [where afterFrac = et])
        show "lexFraction (CHR ''.'' # fd @ et) = Some (fd, et)"
          using fdd False etf(1) by (rule lexFraction_some)
        show "digitFree (CHR ''.'' # fd @ et)" by (simp add: digitFree_def isDigit_def)
      qed (simp_all add: dd ete)
      with False show ?thesis by simp
    qed
    have v: "decimalOf neg [d] fd ex = (m, s)"
    proof -
      have dv: "digitsValue ([d] @ fd) = digitsValue sig" using sig by simp
      have ap: "applyExponent (digitsValue sig) (k - 1) ex = (n0, s)"
      proof (cases "s = 0")
        case True
        with D have nL: "n = int L" "21 < L" by (simp_all add: n_def)
        then have "ex = int (L - 1)" using Lpos by (simp add: ex_def)
        moreover have "L - 1 - (k - 1) = L - k" using kpos kL by simp
        moreover have "k - 1 \<le> L - 1" using kL by simp
        ultimately show ?thesis using sd(6) True
          by (simp add: applyExponent_def)
      next
        case False
        then have spos: "0 < s" by simp
        note f = full [OF spos]
        have dsv: "digitsValue sig = n0" using f by (simp add: ds_def digitsValue_digitsOf)
        have kL': "k - 1 = L - 1" using f by simp
        show ?thesis
        proof (cases "0 \<le> ex")
          case True
          then have "\<not> L - 1 \<le> nat ex" "L - 1 - nat ex = s"
            using spos by (simp_all add: ex_def n_def)
          with True show ?thesis
            by (simp only: applyExponent_def kL' dsv if_True if_False)
        next
          case False
          then have "L - 1 + nat (- ex) = s"
            using Lpos by (simp add: ex_def n_def)
          with False show ?thesis
            by (simp only: applyExponent_def kL' dsv if_False)
        qed
      qed
      have ap': "applyExponent (digitsValue ([d] @ fd)) (length fd) ex = (n0, s)"
        using ap by (simp only: dv fdk)
      have nz: "normalizeDecimal n0 s = (n0, s)" using n0norm by (rule normalizeDecimal_id)
      show ?thesis
        unfolding decimalOf_def by (simp only: ap' nz Let_def prod.case val)
    qed
    from b l v show ?thesis by simp
  qed
qed

lemma numberToString_first:
  assumes "s = 0 \<or> m mod 10 \<noteq> 0"
  shows "\<exists>c cs. numberToString m s = c # cs \<and> (c = CHR ''-'' \<or> isDigit c)"
proof -
  from lexNumber_numberToString [OF assms, of "[]"]
  have l: "lexNumber (numberToString m s) = Some ((m, s), [])" by (simp add: valueEnd_def)
  then obtain c cs where n: "numberToString m s = c # cs"
    by (cases "numberToString m s") (auto simp: lexNumber_def Let_def)
  have "c = CHR ''-'' \<or> isDigit c"
  proof (rule ccontr)
    assume "\<not> (c = CHR ''-'' \<or> isDigit c)"
    with n have "lexNumber (numberToString m s) = None"
      by (simp add: lexNumber_def Let_def)
    with l show False by simp
  qed
  with n show ?thesis by blast
qed

declare lex.simps [simp del]

lemma lexString_escapeChar:
  "lexString (escapeChar c @ tail) = map_option (\<lambda>(s, rest). (c # s, rest)) (lexString tail)"
proof -
  consider (special) "c = CHR 0x22 \<or> c = CHR 0x5C \<or> c = CHR 0x08 \<or> c = CHR 0x0C \<or> c = CHR 0x0A
      \<or> c = CHR 0x0D \<or> c = CHR 0x09"
    | (control) "c \<noteq> CHR 0x22" "c \<noteq> CHR 0x5C" "c \<noteq> CHR 0x08" "c \<noteq> CHR 0x0C" "c \<noteq> CHR 0x0A"
        "c \<noteq> CHR 0x0D" "c \<noteq> CHR 0x09" "(of_char c :: nat) < 32"
    | (plain) "c \<noteq> CHR 0x22" "c \<noteq> CHR 0x5C" "c \<noteq> CHR 0x08" "c \<noteq> CHR 0x0C" "c \<noteq> CHR 0x0A"
        "c \<noteq> CHR 0x0D" "c \<noteq> CHR 0x09" "\<not> (of_char c :: nat) < 32"
    by blast
  then show ?thesis
  proof cases
    case special
    then show ?thesis by (auto simp: escapeChar_def unescapeChar_def)
  next
    case control
    let ?n = "of_char c :: nat"
    have hi: "hexVal (digitChar (?n div 16)) = Some (?n div 16)"
      using control(8) by (intro hexVal_digitChar) simp
    have lo: "hexVal (digitChar (?n mod 16)) = Some (?n mod 16)"
      by (intro hexVal_digitChar) simp
    have z: "hexVal (CHR ''0'') = Some 0" by (simp add: hexVal_def isDigit_def digitVal_def)
    have "hex4 (CHR ''0'') (CHR ''0'') (digitChar (?n div 16)) (digitChar (?n mod 16)) = Some c"
      by (simp add: hex4_def hi lo z)
    moreover have "escapeChar c = [CHR 0x5C, CHR ''u'', CHR ''0'', CHR ''0'',
        digitChar (?n div 16), digitChar (?n mod 16)]"
      using control by (simp add: escapeChar_def)
    ultimately show ?thesis by simp
  next
    case plain
    then show ?thesis by (simp add: escapeChar_def)
  qed
qed

lemma lexString_quoted:
  "lexString (concat (map escapeChar s) @ CHR 0x22 # rest) = Some (s, rest)"
  by (induction s) (simp_all add: lexString_escapeChar)

lemma lex_punctuation:
  "lex (CHR ''{'' # cs) = map_option (Cons TLBrace) (lex cs)"
  "lex (CHR ''}'' # cs) = map_option (Cons TRBrace) (lex cs)"
  "lex (CHR ''['' # cs) = map_option (Cons TLBrack) (lex cs)"
  "lex (CHR '']'' # cs) = map_option (Cons TRBrack) (lex cs)"
  "lex (CHR '':'' # cs) = map_option (Cons TColon) (lex cs)"
  "lex (CHR '','' # cs) = map_option (Cons TComma) (lex cs)"
  by (simp_all add: lex.simps isJsonWhitespace_def)

lemma lex_quoted:
  "lex (quoteJSONString s @ rest) = map_option (Cons (TString s)) (lex rest)"
  by (simp add: lex.simps quoteJSONString_def isJsonWhitespace_def lexString_quoted)

lemma lex_literals:
  "lex (''null'' @ rest) = map_option (Cons TNull) (lex rest)"
  "lex (''true'' @ rest) = map_option (Cons TTrue) (lex rest)"
  "lex (''false'' @ rest) = map_option (Cons TFalse) (lex rest)"
  by (simp_all add: lex.simps isJsonWhitespace_def isDigit_def)

lemma lex_number:
  assumes wf: "s = 0 \<or> m mod 10 \<noteq> 0" and e: "valueEnd rest"
  shows "lex (numberToString m s @ rest) = map_option (Cons (TNumber m s)) (lex rest)"
proof -
  from numberToString_first [OF wf] obtain c cs
    where n: "numberToString m s = c # cs" and c: "c = CHR ''-'' \<or> isDigit c" by blast
  from c have nc: "\<not> isJsonWhitespace c" "c \<noteq> CHR ''{''" "c \<noteq> CHR ''}''" "c \<noteq> CHR ''[''"
    "c \<noteq> CHR '']''" "c \<noteq> CHR '':''" "c \<noteq> CHR '',''" "c \<noteq> CHR 0x22"
    by (auto simp: isJsonWhitespace_def isDigit_def)
  from lexNumber_numberToString [OF wf e] n
  have "lexNumber (c # cs @ rest) = Some ((m, s), rest)" by simp
  with n nc c show ?thesis by (simp add: lex.simps)
qed

lemma valueEnd_simps:
  "valueEnd []" "valueEnd (CHR '','' # cs)" "valueEnd (CHR '']'' # cs)" "valueEnd (CHR ''}'' # cs)"
  by (simp_all add: valueEnd_def)

lemma map_option_append:
  "map_option ((@) xs) (map_option ((@) ys) z) = map_option ((@) (xs @ ys)) z"
  "map_option (Cons x) (map_option ((@) ys) z) = map_option ((@) (x # ys)) z"
  "map_option ((@) xs) (map_option (Cons y) z) = map_option ((@) (xs @ [y])) z"
  "map_option (Cons x) (map_option (Cons y) z) = map_option ((@) [x, y]) z"
  by (cases z; simp)+

lemma lex_stringify:
  "wellFormed v \<Longrightarrow> valueEnd rest \<Longrightarrow>
     lex (JSON_stringify v @ rest) = map_option ((@) (tokensOf v)) (lex rest)"
  "wellFormedElements xs \<Longrightarrow> valueEnd rest \<Longrightarrow>
     lex (stringifyElements xs @ rest) = map_option ((@) (tokensOfElements xs)) (lex rest)"
  "wellFormedMembers ms \<Longrightarrow> valueEnd rest \<Longrightarrow>
     lex (stringifyMembers ms @ rest) = map_option ((@) (tokensOfMembers ms)) (lex rest)"
proof (induction v and xs and ms arbitrary: rest and rest and rest
    rule: JSON_stringify_stringifyElements_stringifyMembers.induct)
  case 1
  then show ?case using lex_literals(1) [of rest] by (cases "lex rest") simp_all
next
  case (2 b)
  then show ?case using lex_literals(2,3) [of rest] by (cases "lex rest") simp_all
next
  case (3 m s)
  then show ?case using lex_number [of s m rest] by (cases "lex rest") simp_all
next
  case (4 s)
  then show ?case using lex_quoted [of s rest] by (cases "lex rest") simp_all
next
  case (5 xs)
  from 5 have "lex (stringifyElements xs @ CHR '']'' # rest)
      = map_option ((@) (tokensOfElements xs)) (lex (CHR '']'' # rest))"
    by (simp add: valueEnd_simps)
  then show ?case
    by (cases "lex rest") (simp_all add: lex_punctuation)
next
  case (6 ms)
  from 6 have "lex (stringifyMembers ms @ CHR ''}'' # rest)
      = map_option ((@) (tokensOfMembers ms)) (lex (CHR ''}'' # rest))"
    by (simp add: valueEnd_simps)
  then show ?case
    by (cases "lex rest") (simp_all add: lex_punctuation)
next
  case 7
  then show ?case by (cases "lex rest") simp_all
next
  case (8 x)
  then show ?case by simp
next
  case (9 x y xs)
  from 9 have a: "lex (JSON_stringify x @ CHR '','' # stringifyElements (y # xs) @ rest)
      = map_option ((@) (tokensOf x)) (lex (CHR '','' # stringifyElements (y # xs) @ rest))"
    by (simp add: valueEnd_simps)
  from 9 have b: "lex (stringifyElements (y # xs) @ rest)
      = map_option ((@) (tokensOfElements (y # xs))) (lex rest)"
    by simp
  show ?case
    by (cases "lex rest") (simp_all add: a b lex_punctuation)
next
  case 10
  then show ?case by (cases "lex rest") simp_all
next
  case (11 k v)
  from 11 have a: "lex (JSON_stringify v @ rest) = map_option ((@) (tokensOf v)) (lex rest)"
    by simp
  show ?case
    using lex_quoted [of k "CHR '':'' # JSON_stringify v @ rest"]
    by (cases "lex rest") (simp_all add: a lex_punctuation)
next
  case (12 k v m ms)
  from 12 have a: "lex (JSON_stringify v @ CHR '','' # stringifyMembers (m # ms) @ rest)
      = map_option ((@) (tokensOf v)) (lex (CHR '','' # stringifyMembers (m # ms) @ rest))"
    by (simp add: valueEnd_simps)
  from 12 have b: "lex (stringifyMembers (m # ms) @ rest)
      = map_option ((@) (tokensOfMembers (m # ms))) (lex rest)"
    by simp
  show ?case
    using lex_quoted [of k "CHR '':'' # JSON_stringify v @ CHR '','' # stringifyMembers (m # ms) @ rest"]
    by (cases "lex rest") (simp_all add: a b lex_punctuation)
qed

lemma objectOrdered_tail: "objectOrdered (k # ks) \<Longrightarrow> objectOrdered ks"
  by (cases ks) simp_all

lemma objectOrdered_prefix: "objectOrdered (xs @ ys) \<Longrightarrow> objectOrdered xs"
proof (induction xs rule: objectOrdered.induct)
  case 1
  then show ?case by simp
next
  case (2 k)
  then show ?case by simp
next
  case (3 k k' ks)
  then show ?case by (auto split: if_splits)
qed

lemma objectOrdered_last_index:
  "objectOrdered (k' # ks @ [k]) \<Longrightarrow> isArrayIndex k \<Longrightarrow>
     isArrayIndex k' \<and> digitsValue k' < digitsValue k"
proof (induction ks arbitrary: k')
  case Nil
  then show ?case by simp
next
  case (Cons a ks)
  from Cons.prems have o: "objectOrdered (a # ks @ [k])" by simp
  from Cons.IH [OF o Cons.prems(2)] have a: "isArrayIndex a" "digitsValue a < digitsValue k"
    by simp_all
  with Cons.prems(1) show ?case by (auto split: if_splits)
qed

lemma insertIndexed_append:
  "objectOrdered (map fst ms @ [k]) \<Longrightarrow> isArrayIndex k \<Longrightarrow>
     insertIndexed k v ms = ms @ [(k, v)]"
proof (induction ms)
  case Nil
  then show ?case by simp
next
  case (Cons kv ms)
  obtain k' v' where kv: "kv = (k', v')" by (cases kv)
  from Cons.prems kv have o: "objectOrdered (k' # map fst ms @ [k])" by simp
  from objectOrdered_last_index [OF o Cons.prems(2)]
  have "isArrayIndex k' \<and> digitsValue k' < digitsValue k" .
  moreover from o have "objectOrdered (map fst ms @ [k])" by (rule objectOrdered_tail)
  ultimately show ?case using Cons.IH Cons.prems(2) kv by simp
qed

lemma setProperty_append:
  assumes "distinct (map fst (ms @ [(k, v)]))" and "objectOrdered (map fst (ms @ [(k, v)]))"
  shows "setProperty k v ms = ms @ [(k, v)]"
proof -
  from assms(1) have "k \<notin> fst ` set ms" by auto
  moreover from assms(2) have "objectOrdered (map fst ms @ [k])" by simp
  ultimately show ?thesis
    by (simp add: setProperty_def insertIndexed_append)
qed

lemma parseStep_open:
  assumes "e = ExpectValue \<or> e = ExpectValueOrEnd"
  shows "parseStep TLBrack (e, st) = Some (ExpectValueOrEnd, InArray [] # st)"
    and "parseStep TLBrace (e, st) = Some (ExpectKeyOrEnd, InObject [] # st)"
    and "parseStep TNull (e, st) = addValue JNull st"
    and "parseStep TTrue (e, st) = addValue (JBool True) st"
    and "parseStep TFalse (e, st) = addValue (JBool False) st"
    and "parseStep (TNumber m s) (e, st) = addValue (JNum m s) st"
    and "parseStep (TString str) (e, st) = addValue (JStr str) st"
  using assms by auto

lemma parseStep_key:
  assumes "e = ExpectKeyOrEnd \<or> e = ExpectKey"
  shows "parseStep (TString k) (e, InObject acc # st) = Some (ExpectColon, InMember acc k # st)"
  using assms by auto

lemma parse_tokensOf:
  "wellFormed v \<Longrightarrow> e = ExpectValue \<or> e = ExpectValueOrEnd \<Longrightarrow>
     parseTokens (tokensOf v @ ts) (e, st)
       = (case addValue v st of None \<Rightarrow> None | Some cfg \<Rightarrow> parseTokens ts cfg)"
  "wellFormedElements xs \<Longrightarrow> xs \<noteq> [] \<Longrightarrow> e = ExpectValue \<or> e = ExpectValueOrEnd \<Longrightarrow>
     parseTokens (tokensOfElements xs @ ts) (e, InArray acc # st)
       = parseTokens ts (ExpectCommaOrEnd, InArray (acc @ xs) # st)"
  "wellFormedMembers ms \<Longrightarrow> ms \<noteq> [] \<Longrightarrow> distinct (map fst (macc @ ms)) \<Longrightarrow>
   objectOrdered (map fst (macc @ ms)) \<Longrightarrow> e = ExpectKeyOrEnd \<or> e = ExpectKey \<Longrightarrow>
     parseTokens (tokensOfMembers ms @ ts) (e, InObject macc # st)
       = parseTokens ts (ExpectCommaOrEnd, InObject (macc @ ms) # st)"
proof (induction v and xs and ms arbitrary: e ts st and e ts st acc and e ts st macc
    rule: JSON_stringify_stringifyElements_stringifyMembers.induct)
  case 1
  then show ?case by (simp add: parseStep_open)
next
  case (2 b)
  then show ?case by (simp add: parseStep_open)
next
  case (3 m s)
  then show ?case by (simp add: parseStep_open)
next
  case (4 s)
  then show ?case by (simp add: parseStep_open)
next
  case (5 xs)
  show ?case
  proof (cases "xs = []")
    case True
    with 5 show ?thesis by (simp add: parseStep_open)
  next
    case False
    from 5 have w: "wellFormedElements xs" by simp
    have "parseTokens (tokensOfElements xs @ TRBrack # ts) (ExpectValueOrEnd, InArray [] # st)
        = parseTokens (TRBrack # ts) (ExpectCommaOrEnd, InArray ([] @ xs) # st)"
      by (rule "5.IH" [OF w False]) simp
    with 5 show ?thesis by (simp add: parseStep_open)
  qed
next
  case (6 ms)
  show ?case
  proof (cases "ms = []")
    case True
    with 6 show ?thesis by (simp add: parseStep_open)
  next
    case False
    from 6 have w: "wellFormedMembers ms" "distinct (map fst ([] @ ms))"
      "objectOrdered (map fst ([] @ ms))" by simp_all
    have "parseTokens (tokensOfMembers ms @ TRBrace # ts) (ExpectKeyOrEnd, InObject [] # st)
        = parseTokens (TRBrace # ts) (ExpectCommaOrEnd, InObject ([] @ ms) # st)"
      by (rule "6.IH" [OF w(1) False w(2) w(3)]) simp
    with 6 show ?thesis by (simp add: parseStep_open)
  qed
next
  case 7
  then show ?case by simp
next
  case (8 x)
  then show ?case by simp
next
  case (9 x y xs)
  from 9 have wx: "wellFormed x" and wr: "wellFormedElements (y # xs)" by simp_all
  have a: "parseTokens (tokensOf x @ TComma # tokensOfElements (y # xs) @ ts) (e, InArray acc # st)
      = parseTokens (TComma # tokensOfElements (y # xs) @ ts)
          (ExpectCommaOrEnd, InArray (acc @ [x]) # st)"
    using "9.IH"(1) [OF wx "9.prems"(3)] by simp
  have b: "parseTokens (tokensOfElements (y # xs) @ ts) (ExpectValue, InArray (acc @ [x]) # st)
      = parseTokens ts (ExpectCommaOrEnd, InArray ((acc @ [x]) @ y # xs) # st)"
    by (rule "9.IH"(2) [OF wr]) simp_all
  show ?case using a b by simp
next
  case 10
  then show ?case by simp
next
  case (11 k v)
  from 11 have wv: "wellFormed v" by simp
  have s: "setProperty k v macc = macc @ [(k, v)]"
    using "11.prems" by (intro setProperty_append) simp_all
  have "parseTokens (tokensOf v @ ts) (ExpectValue, InMember macc k # st)
      = (case addValue v (InMember macc k # st) of None \<Rightarrow> None | Some cfg \<Rightarrow> parseTokens ts cfg)"
    by (rule "11.IH" [OF wv]) simp
  with s "11.prems"(5) show ?case by (simp add: parseStep_key)
next
  case (12 k v m ms)
  from 12 have wv: "wellFormed v" and wr: "wellFormedMembers (m # ms)" by simp_all
  from "12.prems"(3) have d: "distinct (map fst (macc @ [(k, v)]))" by simp
  from "12.prems"(4) have "objectOrdered (map fst (macc @ [(k, v)]) @ map fst (m # ms))" by simp
  then have o: "objectOrdered (map fst (macc @ [(k, v)]))" by (rule objectOrdered_prefix)
  have s: "setProperty k v macc = macc @ [(k, v)]"
    using d o by (rule setProperty_append)
  have a: "parseTokens (tokensOf v @ TComma # tokensOfMembers (m # ms) @ ts)
        (ExpectValue, InMember macc k # st)
      = (case addValue v (InMember macc k # st) of None \<Rightarrow> None
         | Some cfg \<Rightarrow> parseTokens (TComma # tokensOfMembers (m # ms) @ ts) cfg)"
    by (rule "12.IH"(1) [OF wv]) simp
  have b: "parseTokens (tokensOfMembers (m # ms) @ ts) (ExpectKey, InObject (macc @ [(k, v)]) # st)
      = parseTokens ts (ExpectCommaOrEnd, InObject ((macc @ [(k, v)]) @ m # ms) # st)"
    using "12.prems"(3,4) by (intro "12.IH"(2) [OF wr]) simp_all
  show ?case using a b s "12.prems"(5) by (simp add: parseStep_key)
qed

lemma parse_stringify: "wellFormed v \<Longrightarrow> JSON_parse (JSON_stringify v) = Inr v"
  using lex_stringify(1) [of v "[]"] parse_tokensOf(1) [of v ExpectValue "[]" "[]"]
  by (simp add: JSON_parse_def valueEnd_def lex.simps)

section \<open>Frame properties of the handlers\<close>

lemma addLog_simps:
  "logs (addLog d t j ty s) = logs s @ [\<lparr>logId = idsDrawn s, logTimestamp = now s, direction = d,
      summary = t, detail = JSON_stringify j, logType = ty\<rparr>]"
  "results (addLog d t j ty s) = results s"
  "now (addLog d t j ty s) = now s"
  "idsDrawn (addLog d t j ty s) = idsDrawn s + 1"
  "paramValues (addLog d t j ty s) = paramValues s"
  "scenarios (addLog d t j ty s) = scenarios s"
  "selectedScenario (addLog d t j ty s) = selectedScenario s"
  "runningStep (addLog d t j ty s) = runningStep s"
  "validationErrors (addLog d t j ty s) = validationErrors s"
  by (simp_all add: addLog_def)

lemma sleep_simps:
  "logs (sleep ms s) = logs s"
  "results (sleep ms s) = results s"
  "now (sleep ms s) = now s + timerDelay ms"
  "idsDrawn (sleep ms s) = idsDrawn s"
  "paramValues (sleep ms s) = paramValues s"
  "scenarios (sleep ms s) = scenarios s"
  "selectedScenario (sleep ms s) = selectedScenario s"
  "runningStep (sleep ms s) = runningStep s"
  "validationErrors (sleep ms s) = validationErrors s"
  by (simp_all add: sleep_def)

lemma respond_frame:
  assumes "respond step ap s = (outcome, ap', s')"
  shows "prefix (logs s) (logs s')" "results s' = results s" "paramValues s' = paramValues s"
    "scenarios s' = scenarios s" "selectedScenario s' = selectedScenario s"
    "validationErrors s' = validationErrors s"
  using assms by (auto simp: respond_def addLog_simps split: option.splits if_splits)

lemma runStep_frame:
  assumes "runStep i step ap s = (fl, outcome, ap', s')"
  shows "prefix (logs s) (logs s')" "results s' = results s" "paramValues s' = paramValues s"
    "scenarios s' = scenarios s" "selectedScenario s' = selectedScenario s"
    "validationErrors s' = validationErrors s"
proof -
  have "prefix (logs s) (logs s') \<and> results s' = results s \<and> paramValues s' = paramValues s
    \<and> scenarios s' = scenarios s \<and> selectedScenario s' = selectedScenario s
    \<and> validationErrors s' = validationErrors s"
  proof (cases "resolveBody (paramValues s) (body (messageToSend step))")
    case (Inl e)
    with assms show ?thesis by (auto simp: runStep_def Let_def addLog_simps)
  next
    case (Inr b)
    show ?thesis
    proof (cases "waitBit (messageToSend step) \<and> numberLess (timeoutMs step) (simulateDelayMs step)")
      case True
      with Inr assms show ?thesis
        by (auto simp: runStep_def Let_def addLog_simps sleep_simps)
    next
      case False
      obtain o1 a1 s1 where r: "respond step ap (sleep (simulateDelayMs step)
          (addLog HOST_TO_EQP (sxfyOf (messageToSend step) @ '' '' @ msgName (messageToSend step) @ '' ''
             @ (if waitBit (messageToSend step) then ''[W]'' else [])) b LogInfo
             (s\<lparr>runningStep := Some i\<rparr>))) = (o1, a1, s1)"
        by (metis prod_cases3)
      from False Inr assms r have "s' = sleep (Finite 800 0) s1"
        by (auto simp: runStep_def Let_def)
      with respond_frame [OF r] show ?thesis
        by (auto simp: addLog_simps sleep_simps elim: prefix_order.trans [rotated])
    qed
  qed
  then show "prefix (logs s) (logs s')" "results s' = results s" "paramValues s' = paramValues s"
    "scenarios s' = scenarios s" "selectedScenario s' = selectedScenario s"
    "validationErrors s' = validationErrors s" by simp_all
qed

lemma runSteps_frame:
  "runSteps i sts ap s = (os, ap', s') \<Longrightarrow>
     prefix (logs s) (logs s') \<and> results s' = results s \<and> paramValues s' = paramValues s
     \<and> scenarios s' = scenarios s \<and> selectedScenario s' = selectedScenario s
     \<and> validationErrors s' = validationErrors s"
proof (induction sts arbitrary: i ap s os ap' s')
  case Nil
  then show ?case by simp
next
  case (Cons st sts)
  obtain fl o1 a1 s1 where r: "runStep i st ap s = (fl, o1, a1, s1)"
    by (metis prod_cases4)
  note f = runStep_frame [OF r]
  show ?case
  proof (cases fl)
    case Break
    with Cons.prems r f show ?thesis by simp
  next
    case Continue
    obtain os2 a2 s2 where r2: "runSteps (i + 1) sts a1 s1 = (os2, a2, s2)"
      by (metis prod_cases3)
    from Cons.prems r Continue r2 have "s' = s2" by simp
    with Cons.IH [OF r2] f show ?thesis
      by (auto elim: prefix_order.trans)
  qed
qed




lemma respond_outcome:
  "respond step ap s = (outcome, ap', s') \<Longrightarrow>
     outcome \<noteq> MalformedTemplate \<and> outcome \<noteq> TimedOut \<and> ap' = (ap \<and> passing outcome)"
  by (auto simp: respond_def split: option.splits if_splits)

lemma runStep_outcome:
  assumes "runStep i step ap s = (fl, outcome, ap', s')"
  shows "(fl = Break) = (outcome = MalformedTemplate)" and "ap' = (ap \<and> passing outcome)"
  using assms
  by (auto simp: runStep_def Let_def split: sum.splits if_splits prod.splits
      dest: respond_outcome)

lemma runSteps_outcomes:
  "runSteps i sts ap s = (os, ap', s') \<Longrightarrow>
     ap' = (ap \<and> list_all passing os)
     \<and> (length os = length sts \<and> MalformedTemplate \<notin> set os
        \<or> os \<noteq> [] \<and> last os = MalformedTemplate \<and> MalformedTemplate \<notin> set (butlast os)
           \<and> length os \<le> length sts)"
proof (induction sts arbitrary: i ap s os ap' s')
  case Nil
  then show ?case by simp
next
  case (Cons st sts)
  obtain fl o1 a1 s1 where r: "runStep i st ap s = (fl, o1, a1, s1)"
    by (metis prod_cases4)
  note o = runStep_outcome [OF r]
  show ?case
  proof (cases fl)
    case Break
    with Cons.prems r o show ?thesis by auto
  next
    case Continue
    obtain os2 a2 s2 where r2: "runSteps (i + 1) sts a1 s1 = (os2, a2, s2)"
      by (metis prod_cases3)
    from Cons.prems r Continue r2 have e: "os = o1 # os2" "ap' = a2" by simp_all
    from Continue o have "o1 \<noteq> MalformedTemplate" by simp
    with Cons.IH [OF r2] e o show ?thesis by auto
  qed
qed

lemma runSteps_append:
  "runSteps i pre ap s = (os, ap1, s1) \<Longrightarrow> MalformedTemplate \<notin> set os \<Longrightarrow>
   runSteps (i + length pre) post ap1 s1 = (os2, ap2, s2) \<Longrightarrow>
   runSteps i (pre @ post) ap s = (os @ os2, ap2, s2)"
proof (induction pre arbitrary: i ap s os ap1 s1)
  case Nil
  then show ?case by simp
next
  case (Cons st pre)
  obtain fl o1 a1 t1 where r: "runStep i st ap s = (fl, o1, a1, t1)"
    by (metis prod_cases4)
  show ?case
  proof (cases fl)
    case Break
    with Cons.prems r runStep_outcome(1) [OF r] show ?thesis by auto
  next
    case Continue
    obtain os' a' t' where r2: "runSteps (i + 1) pre a1 t1 = (os', a', t')"
      by (metis prod_cases3)
    from Cons.prems(1) r Continue r2 have e: "os = o1 # os'" "ap1 = a'" "s1 = t'" by simp_all
    from Cons.prems(2) e have nm: "MalformedTemplate \<notin> set os'" by simp
    from Cons.prems(3) e have "runSteps (i + 1 + length pre) post a' t' = (os2, ap2, s2)" by simp
    from Cons.IH [OF r2 nm this] r Continue e show ?thesis by simp
  qed
qed

lemma finish_simps:
  "results (finish sc ap s) =
     \<lparr>scenarioId = title sc, timestamp = now s, passed = ap,
      resultNotes = (if ap then ''All steps completed successfully.''
                     else ''Scenario failed due to errors or timeouts.'')\<rparr> # results s"
  "logs (finish sc ap s) = logs s @
     [\<lparr>logId = idsDrawn s, logTimestamp = now s, direction = INFO,
       summary = ''Scenario Complete: '' @ (if ap then ''PASSED'' else ''FAILED''),
       detail = ''{}'', logType = (if ap then LogSuccess else LogError)\<rparr>]"
  "now (finish sc ap s) = now s"
  by (simp_all add: finish_def Let_def addLog_simps)

lemma started_simps:
  "logs (started sc s) = logs s @
     [\<lparr>logId = idsDrawn s, logTimestamp = now s, direction = INFO,
       summary = ''Starting Scenario: '' @ title sc, detail = ''{}'', logType = LogInfo\<rparr>]"
  "results (started sc s) = results s"
  "paramValues (started sc s) = paramValues s"
  "now (started sc s) = now s"
  "idsDrawn (started sc s) = idsDrawn s + 1"
  by (simp_all add: started_def addLog_simps)

lemma runScenario_completes:
  assumes "runningStep s = None" and "validationErrors s = []"
    and "runSteps 0 (steps sc) True (started sc s) = (os, ap, s')"
  shows "runScenario sc s = finish sc ap s'"
  using assms by (simp add: runScenario_def)

lemma runScenario_results:
  assumes "runningStep s = None" and "validationErrors s = []"
  shows "results (runScenario sc s) =
     \<lparr>scenarioId = title sc, timestamp = now (runScenario sc s),
      passed = list_all passing (stepOutcomes sc s),
      resultNotes = (if list_all passing (stepOutcomes sc s)
                     then ''All steps completed successfully.''
                     else ''Scenario failed due to errors or timeouts.'')\<rparr> # results s"
proof -
  obtain os ap s' where r: "runSteps 0 (steps sc) True (started sc s) = (os, ap, s')"
    by (metis prod_cases3)
  from runSteps_outcomes [OF r] have ap: "ap = list_all passing os" by simp
  from runSteps_frame [OF r] have "results s' = results s" by (simp add: started_simps)
  moreover have "stepOutcomes sc s = os" using r by (simp add: stepOutcomes_def)
  ultimately show ?thesis
    using runScenario_completes [OF assms r] ap by (simp add: finish_simps)
qed

lemma perform_keeps_logs:
  assumes "a \<noteq> ClearLogs"
  shows "prefix (logs s) (logs (perform a s))"
proof (cases a)
  case (RunScenario sc)
  show ?thesis
  proof (cases "runningStep s = None \<and> validationErrors s = []")
    case True
    obtain os ap s' where r: "runSteps 0 (steps sc) True (started sc s) = (os, ap, s')"
      by (metis prod_cases3)
    from runSteps_frame [OF r] have "prefix (logs (started sc s)) (logs s')" by simp
    then have "prefix (logs s) (logs s')"
      by (auto simp: started_simps elim: prefix_order.trans [rotated])
    moreover have "prefix (logs s') (logs (finish sc ap s'))"
      by (simp add: finish_simps)
    ultimately have "prefix (logs s) (logs (finish sc ap s'))"
      by (rule prefix_order.trans)
    with True r RunScenario show ?thesis
      by (simp add: runScenario_completes [OF _ _ r])
  next
    case False
    with RunScenario show ?thesis
      by (auto simp: runScenario_def addLog_simps)
  qed
next
  case ClearLogs
  with assms show ?thesis by simp
next
  case ExportScenarios
  then show ?thesis by (simp add: handleExportScenarios_def addLog_simps)
next
  case (ImportScenarios payload)
  then show ?thesis
    by (auto simp: handleImportScenarios_def addLog_simps setSelectedScenario_def
        split: option.splits sum.splits json.splits)
next
  case (ParamChange p v)
  then show ?thesis by (simp add: handleParamChange_def)
next
  case (SelectScenario sel)
  then show ?thesis by (simp add: setSelectedScenario_def)
qed



text \<open>A whole number below \<open>2 ^ 53\<close> is a double: rounding leaves it as it is.\<close>

lemma bitLength_bound: "p < 2 ^ k \<Longrightarrow> bitLength p \<le> k"
proof (induction k arbitrary: p)
  case 0
  then show ?case by (simp add: bitLength.simps)
next
  case (Suc k)
  then have "p div 2 < 2 ^ k" by auto
  from Suc.IH [OF this] show ?case by (simp add: bitLength.simps [of p])
qed

lemma bitLength_lower: "0 < p \<Longrightarrow> 2 ^ (bitLength p - 1) \<le> p"
proof (induction p rule: bitLength.induct)
  case (1 n)
  show ?case
  proof (cases "n div 2 = 0")
    case True
    with 1(2) have "n = 1" by auto
    then show ?thesis by (simp add: bitLength.simps)
  next
    case False
    with 1 have ih: "2 ^ (bitLength (n div 2) - 1) \<le> n div 2" by simp
    from False have pos: "0 < bitLength (n div 2)" by (simp add: bitLength.simps [of "n div 2"])
    then have "(2::nat) ^ bitLength (n div 2) = 2 * 2 ^ (bitLength (n div 2) - 1)"
      by (cases "bitLength (n div 2)") simp_all
    with ih have "2 ^ bitLength (n div 2) \<le> n" by simp
    with 1(2) show ?thesis by (simp add: bitLength.simps [of n])
  qed
qed

lemma dyadic_scaled: "dyadic (n * 2 ^ j) j = Finite n 0"
proof (induction j)
  case 0
  then show ?case by (simp add: dyadic.simps)
next
  case (Suc j)
  have "dyadic (n * 2 ^ Suc j) (Suc j) = dyadic ((n * 2 ^ Suc j) div 2) j"
    by (subst dyadic.simps) simp
  also have "(n * 2 ^ Suc j) div 2 = n * 2 ^ j" by simp
  finally show ?case using Suc by simp
qed

lemma roundHalfEven_whole: "roundHalfEven p (Suc 0) = p"
  by (simp add: roundHalfEven_def)

lemma binaryExponent_whole:
  assumes "0 < p"
  shows "binaryExponent p (Suc 0) = int (bitLength p) - 1"
proof -
  from assms have pos: "0 < bitLength p" by (simp add: bitLength.simps [of p])
  have one: "bitLength (Suc 0) = 1" by (simp add: bitLength.simps)
  from bitLength_lower [OF assms] pos show ?thesis
    by (simp add: binaryExponent_def one Let_def nat_diff_distrib)
qed

lemma roundToDouble_integer:
  assumes "0 < p" and "p < 2 ^ 53"
  shows "roundToDouble neg p (Suc 0) = Finite (if neg then - int p else int p) 0"
proof -
  from assms(1) have pos: "0 < bitLength p" by (simp add: bitLength.simps [of p])
  from bitLength_bound [OF assms(2)] have le: "bitLength p \<le> 53" .
  define j where "j = 53 - bitLength p"
  have e: "max (binaryExponent p (Suc 0) - 52) (- 1074) = - int j"
    using pos le by (simp add: binaryExponent_whole [OF assms(1)] j_def)
  show ?thesis
  proof (cases "j = 0")
    case True
    with e assms show ?thesis
      by (simp add: roundToDouble_def roundHalfEven_whole Let_def)
  next
    case False
    have "dyadic ((if neg then - 1 else 1) * int (p * 2 ^ j)) j
        = Finite (if neg then - int p else int p) 0"
      using dyadic_scaled [of "int p" j] dyadic_scaled [of "- int p" j] by simp
    with False e assms show ?thesis
      by (simp add: roundToDouble_def roundHalfEven_whole Let_def)
  qed
qed

lemma roundToDouble_zero: "roundToDouble neg 0 q = (if neg then NegZero else Finite 0 0)"
  by (simp add: roundToDouble_def)



lemmas run_eval =
  runStep_def respond_def mockResponse_def MOCK_RESPONSES_def resolveBody_def
  substituteParameters_def started_def addLog_def sleep_def timerDelay_def toInt32_def
  timeoutMs_def simulateDelayMs_def
  sxfyOf_def JSON_parse_def isJsonWhitespace_def isDigit_def quoteJSONString_def escapeChar_def
  numberToString_def stripTrailingZeros_def lexNumber_def lexFraction_def lexExponent_def
  lexSign_def decimalOf_def applyExponent_def normalizeDecimal.simps digitsValue_def digitVal_def
  setProperty_def isArrayIndex_def digitsOf.simps digitChar_def Let_def replaceAll_def
  placeholder_def blankState_def lex.simps

lemma runScenario_reaches:
  assumes g: "runningStep s0 = None" "validationErrors s0 = []"
    and st: "steps sc = pre @ step # rest"
    and reach: "runSteps 0 pre True (started sc s0) = (os, ap, s)" "MalformedTemplate \<notin> set os"
    and loop: "runSteps (length pre) (step # rest) ap s = (os2, ap2, s2)"
  shows "runScenario sc s0 = finish sc ap2 s2" and "stepOutcomes sc s0 = os @ os2"
    and "paramValues s = paramValues s0" and "length os = length pre"
proof -
  from loop have "runSteps (0 + length pre) (step # rest) ap s = (os2, ap2, s2)" by simp
  from runSteps_append [OF reach this] st
  have all: "runSteps 0 (steps sc) True (started sc s0) = (os @ os2, ap2, s2)" by simp
  from runScenario_completes [OF g all] show "runScenario sc s0 = finish sc ap2 s2" .
  from all show "stepOutcomes sc s0 = os @ os2" by (simp add: stepOutcomes_def)
  from runSteps_frame [OF reach(1)] show "paramValues s = paramValues s0"
    by (simp add: started_simps)
  from runSteps_outcomes [OF reach(1)] reach(2) show "length os = length pre"
    by (metis last_in_set)
qed

lemmas param_eval =
  quotedObjectIdState_def quotedObjectId_def handleParamChange_def setSelectedScenario_def
  parameterDefaults_def e142_obj_services_def OBJID_parameter_def ATTRID_parameter_def
  NEWVAL_parameter_def validateParameter_def deleteProperty_def Number_def trimString_def
  isStrWhiteSpace_def nonDecimalLiteral_def strDecimalLiteral_def roundToDouble_integer
  roundToDouble_zero

lemma quoted_state:
  "paramValues quotedObjectIdState
     = [(''OBJID'', quotedObjectId), (''ATTRID'', ''BinMap''), (''NEWVAL'', ''100'')]"
  "validationErrors quotedObjectIdState = []"
  "runningStep quotedObjectIdState = None"
  "results quotedObjectIdState = []"
  "logs quotedObjectIdState = []"
  by (simp_all add: param_eval run_eval)

lemma quoted_substitution:
  "substituteParameters (paramValues quotedObjectIdState)
      (JSON_stringify (body (messageToSend (hd (steps e142_obj_services)))))
     = ''{'' @ [CHR 0x22] @ ''OBJID'' @ [CHR 0x22] @ '':''
         @ [CHR 0x22] @ ''a'' @ [CHR 0x22] @ ''b'' @ [CHR 0x22] @ '',''
         @ [CHR 0x22] @ ''OBJTYPE'' @ [CHR 0x22] @ '':'' @ [CHR 0x22] @ ''SubstrateMap'' @ [CHR 0x22]
         @ '','' @ [CHR 0x22] @ ''ATTRID'' @ [CHR 0x22] @ '':['' @ [CHR 0x22] @ ''BinMap''
         @ [CHR 0x22] @ '']}''"
  by (simp add: quoted_state quotedObjectId_def e142_obj_services_def run_eval)

lemma quoted_resolution:
  "resolveBody (paramValues quotedObjectIdState)
      (body (messageToSend (hd (steps e142_obj_services))))
     = Inl (SyntaxError ''Unexpected token in JSON'')"
  by (simp add: quoted_state quotedObjectId_def e142_obj_services_def run_eval)







lemma resolveBody_empty: "wellFormed b \<Longrightarrow> resolveBody [] b = Inr b"
  by (simp add: resolveBody_def substituteParameters_def parse_stringify)

lemma respond_directions:
  assumes "respond step ap s = (outcome, ap', s')"
    and "\<not> (waitBit (messageToSend step) \<and> numberLess (timeoutMs step) (simulateDelayMs step))"
  shows "map direction (logs s') = map direction (logs s) @ tl (stepDirections step)"
  using assms
  by (auto simp: respond_def stepDirections_def addLog_simps mockResponse_def
      split: option.splits if_splits)

lemma runStep_directions:
  assumes pv: "paramValues s = []" and wf: "wellFormed (body (messageToSend step))"
    and r: "runStep i step ap s = (fl, outcome, ap', s')"
  shows "fl = Continue" and "map direction (logs s') = map direction (logs s) @ stepDirections step"
proof -
  let ?msg = "messageToSend step"
  let ?s1 = "addLog HOST_TO_EQP (sxfyOf ?msg @ '' '' @ msgName ?msg @ '' ''
             @ (if waitBit ?msg then ''[W]'' else [])) (body ?msg) LogInfo (s\<lparr>runningStep := Some i\<rparr>)"
  have res: "resolveBody (paramValues s) (body ?msg) = Inr (body ?msg)"
    using pv wf by (simp add: resolveBody_empty)
  have "fl = Continue \<and> map direction (logs s') = map direction (logs s) @ stepDirections step"
  proof (cases "waitBit ?msg \<and> numberLess (timeoutMs step) (simulateDelayMs step)")
    case True
    with r res show ?thesis
      by (auto simp: runStep_def Let_def addLog_simps sleep_simps stepDirections_def)
  next
    case False
    obtain o1 a1 s1 where rs: "respond step ap (sleep (simulateDelayMs step) ?s1) = (o1, a1, s1)"
      by (metis prod_cases3)
    from False r res rs have e: "fl = Continue" "s' = sleep (Finite 800 0) s1"
      by (auto simp: runStep_def Let_def)
    have hd: "stepDirections step = HOST_TO_EQP # tl (stepDirections step)"
      by (simp add: stepDirections_def)
    from respond_directions [OF rs False]
    have "map direction (logs s1) = map direction (logs s) @ HOST_TO_EQP # tl (stepDirections step)"
      by (simp add: addLog_simps sleep_simps)
    with e hd show ?thesis by (simp add: sleep_simps)
  qed
  then show "fl = Continue"
    and "map direction (logs s') = map direction (logs s) @ stepDirections step" by simp_all
qed

lemma runSteps_directions:
  "paramValues s = [] \<Longrightarrow> list_all (\<lambda>step. wellFormed (body (messageToSend step))) sts \<Longrightarrow>
   runSteps i sts ap s = (os, ap', s') \<Longrightarrow>
     length os = length sts
     \<and> map direction (logs s') = map direction (logs s) @ concat (map stepDirections sts)"
proof (induction sts arbitrary: i ap s os ap' s')
  case Nil
  then show ?case by simp
next
  case (Cons st sts)
  obtain fl o1 a1 s1 where r: "runStep i st ap s = (fl, o1, a1, s1)"
    by (metis prod_cases4)
  from Cons.prems(2) have wf: "wellFormed (body (messageToSend st))"
    and wfs: "list_all (\<lambda>step. wellFormed (body (messageToSend step))) sts" by simp_all
  note d = runStep_directions [OF Cons.prems(1) wf r]
  from runStep_frame(3) [OF r] Cons.prems(1) have pv: "paramValues s1 = []" by simp
  obtain os2 a2 s2 where r2: "runSteps (i + 1) sts a1 s1 = (os2, a2, s2)"
    by (metis prod_cases3)
  from Cons.prems(3) r d(1) r2 have e: "os = o1 # os2" "s' = s2" by simp_all
  from Cons.IH [OF pv wfs r2] d(2) e show ?case by simp
qed

section \<open>The claims\<close>




text \<open>
  C8 (as the code has it). The verdict that a completed run puts in front of the history
  carries the title of the scenario in its field \<^verbatim>\<open>scenarioId\<close>, the time of completion,
  the flag and one of the two fixed notes. (The card of a scenario finds its last verdict
  by the title as well.)
\<close>

theorem verdict_carries_title:
  assumes "runningStep s = None" and "validationErrors s = []"
  shows "results (runScenario sc s) =
     \<lparr>scenarioId = title sc, timestamp = now (runScenario sc s),
      passed = list_all passing (stepOutcomes sc s),
      resultNotes = (if list_all passing (stepOutcomes sc s)
                     then ''All steps completed successfully.''
                     else ''Scenario failed due to errors or timeouts.'')\<rparr> # results s"
  using assms by (rule runScenario_results)

theorem verdict_carries_title_witness:
  "runningStep blankState = None \<and> validationErrors blankState = []
   \<and> scenarioId (hd (results (runScenario e9_timeout blankState)))
       = ''E9: Timeout Handling (Negative Test)''
   \<and> tl (results (runScenario e9_timeout blankState)) = results blankState"
proof -
  have g: "runningStep blankState = None" "validationErrors blankState = []"
    by (simp_all add: blankState_def)
  from verdict_carries_title [OF g, of e9_timeout] g show ?thesis
    by (simp add: e9_timeout_def)
qed

text \<open>
  C8 as stated fails: the verdict of a run of the catalog's scenario with id
  \<^verbatim>\<open>e9-timeout\<close> does not carry that id.
\<close>

theorem verdict_identifier_counterexample:
  "scenarioId (hd (results (runScenario e9_timeout blankState))) \<noteq> scenarioIdent e9_timeout"
proof -
  have g: "runningStep blankState = None" "validationErrors blankState = []"
    by (simp_all add: blankState_def)
  show ?thesis by (simp add: runScenario_results [OF g] e9_timeout_def)
qed



text \<open>
  C10. The bulk clear empties the transcript and the verdict history together, in every
  state; and it is the only operation of the component that removes an entry from the
  transcript: an operation that leaves a non-empty transcript empty is the bulk clear
  (every other operation keeps all the entries that are there).
\<close>

theorem clearLogs_clears_transcript_and_history:
  "logs (clearLogs s) = [] \<and> results (clearLogs s) = []
   \<and> (logs s \<noteq> [] \<and> logs (perform a s) = [] \<longrightarrow> a = ClearLogs)"
proof -
  have "a = ClearLogs" if "logs s \<noteq> []" and "logs (perform a s) = []"
  proof (rule ccontr)
    assume "a \<noteq> ClearLogs"
    from perform_keeps_logs [OF this, of s] that show False by simp
  qed
  then show ?thesis by (simp add: clearLogs_def)
qed

theorem clearLogs_clears_transcript_and_history_witness:
  "logs (runScenario e9_timeout blankState) \<noteq> []
   \<and> results (runScenario e9_timeout blankState) \<noteq> []
   \<and> logs (perform ClearLogs (runScenario e9_timeout blankState)) = []
   \<and> results (clearLogs (runScenario e9_timeout blankState)) = []"
proof -
  have g: "runningStep blankState = None" "validationErrors blankState = []"
    by (simp_all add: blankState_def)
  obtain os ap s' where r: "runSteps 0 (steps e9_timeout) True (started e9_timeout blankState) = (os, ap, s')"
    by (metis prod_cases3)
  have l: "logs (runScenario e9_timeout blankState) \<noteq> []"
    by (simp add: runScenario_completes [OF g r] finish_simps)
  have h: "results (runScenario e9_timeout blankState) \<noteq> []"
    by (simp add: runScenario_results [OF g])
  from clearLogs_clears_transcript_and_history [of "runScenario e9_timeout blankState" ClearLogs] l h
  show ?thesis by simp
qed

text \<open>
  C3. When the body of a step that a run reaches does not resolve, the run appends one
  error entry for that step and the closing entry, and nothing else: the result does not
  depend on the steps after it, none of which gets an outcome, and the verdict is failed.
\<close>

theorem template_failure_aborts:
  assumes g: "runningStep s0 = None" "validationErrors s0 = []"
    and st: "steps sc = pre @ step # rest"
    and reach: "runSteps 0 pre True (started sc s0) = (os, ap, s)" "MalformedTemplate \<notin> set os"
    and r: "resolveBody (paramValues s0) (body (messageToSend step)) = Inl e"
  shows "runScenario sc s0
       = finish sc False
           (addLog ERROR (''Failed to parse message body for '' @ stepName step)
              (JObj [(''error'', JStr (errorToString e))]) LogError
              (s\<lparr>runningStep := Some (length pre)\<rparr>))
     \<and> stepOutcomes sc s0 = os @ [MalformedTemplate]
     \<and> length (stepOutcomes sc s0) = Suc (length pre)
     \<and> logs (runScenario sc s0) = logs s @
          [\<lparr>logId = idsDrawn s, logTimestamp = now s, direction = ERROR,
            summary = ''Failed to parse message body for '' @ stepName step,
            detail = JSON_stringify (JObj [(''error'', JStr (errorToString e))]),
            logType = LogError\<rparr>,
           \<lparr>logId = idsDrawn s + 1, logTimestamp = now s, direction = INFO,
            summary = ''Scenario Complete: FAILED'', detail = ''{}'', logType = LogError\<rparr>]
     \<and> \<not> passed (hd (results (runScenario sc s0)))"
proof -
  from runSteps_frame [OF reach(1)] have pv: "paramValues s = paramValues s0"
    by (simp add: started_simps)
  have loop: "runSteps (length pre) (step # rest) ap s
      = ([MalformedTemplate], False,
         addLog ERROR (''Failed to parse message body for '' @ stepName step)
           (JObj [(''error'', JStr (errorToString e))]) LogError
           (s\<lparr>runningStep := Some (length pre)\<rparr>))"
    using r pv by (simp add: runStep_def Let_def)
  note run = runScenario_reaches [OF g st reach loop]
  from run(1) run(2) run(4) show ?thesis
    by (simp add: finish_simps addLog_simps)
qed

theorem template_failure_aborts_witness:
  "runningStep quotedObjectIdState = None \<and> validationErrors quotedObjectIdState = []
   \<and> steps e142_obj_services = [] @ hd (steps e142_obj_services) # tl (steps e142_obj_services)
   \<and> length (tl (steps e142_obj_services)) = 2
   \<and> resolveBody (paramValues quotedObjectIdState)
        (body (messageToSend (hd (steps e142_obj_services))))
       = Inl (SyntaxError ''Unexpected token in JSON'')
   \<and> stepOutcomes e142_obj_services quotedObjectIdState = [MalformedTemplate]
   \<and> map direction (logs (runScenario e142_obj_services quotedObjectIdState)) = [INFO, ERROR, INFO]
   \<and> \<not> passed (hd (results (runScenario e142_obj_services quotedObjectIdState)))"
proof -
  have st: "steps e142_obj_services
      = [] @ hd (steps e142_obj_services) # tl (steps e142_obj_services)"
    and n: "length (tl (steps e142_obj_services)) = 2"
    by (simp_all add: e142_obj_services_def)
  have reach: "runSteps 0 [] True (started e142_obj_services quotedObjectIdState)
      = ([], True, started e142_obj_services quotedObjectIdState)" by simp
  have nm: "MalformedTemplate \<notin> set []" by simp
  note t = template_failure_aborts [OF quoted_state(3) quoted_state(2) st reach nm quoted_resolution]
  from t [THEN conjunct2, THEN conjunct1]
  have o: "stepOutcomes e142_obj_services quotedObjectIdState = [MalformedTemplate]"
    by simp
  have l: "map direction (logs (runScenario e142_obj_services quotedObjectIdState))
      = [INFO, ERROR, INFO]"
    by (simp add: t [THEN conjunct2, THEN conjunct2, THEN conjunct2, THEN conjunct1]
        started_simps quoted_state)
  from t [THEN conjunct2, THEN conjunct2, THEN conjunct2, THEN conjunct2]
  have p: "\<not> passed (hd (results (runScenario e142_obj_services quotedObjectIdState)))" .
  from quoted_state(2,3) st n quoted_resolution o l p show ?thesis by blast
qed

text \<open>
  C9. With the catalog's Object Services scenario selected and \<^verbatim>\<open>a"b\<close> typed as the
  object id, every declared parameter passes validation and the error map is empty, so
  the run starts; the substitution in the first body closes the string early, the text
  no longer parses, and the run ends at once as failed with the template-parse error.
\<close>

theorem valid_parameters_can_break_resolution:
  "paramValues quotedObjectIdState
     = [(''OBJID'', quotedObjectId), (''ATTRID'', ''BinMap''), (''NEWVAL'', ''100'')]
   \<and> validateParameter OBJID_parameter quotedObjectId = None
   \<and> validateParameter ATTRID_parameter ''BinMap'' = None
   \<and> validateParameter NEWVAL_parameter ''100'' = None
   \<and> validationErrors quotedObjectIdState = []
   \<and> substituteParameters (paramValues quotedObjectIdState)
        (JSON_stringify (body (messageToSend (hd (steps e142_obj_services)))))
       = ''{'' @ [CHR 0x22] @ ''OBJID'' @ [CHR 0x22] @ '':''
         @ [CHR 0x22] @ ''a'' @ [CHR 0x22] @ ''b'' @ [CHR 0x22] @ '',''
         @ [CHR 0x22] @ ''OBJTYPE'' @ [CHR 0x22] @ '':'' @ [CHR 0x22] @ ''SubstrateMap'' @ [CHR 0x22]
         @ '','' @ [CHR 0x22] @ ''ATTRID'' @ [CHR 0x22] @ '':['' @ [CHR 0x22] @ ''BinMap''
         @ [CHR 0x22] @ '']}''
   \<and> resolveBody (paramValues quotedObjectIdState)
        (body (messageToSend (hd (steps e142_obj_services))))
       = Inl (SyntaxError ''Unexpected token in JSON'')
   \<and> map summary (logs (runScenario e142_obj_services quotedObjectIdState))
       = [''Starting Scenario: E142: Object Services (S14)'',
          ''Failed to parse message body for Get Attribute (S14F1)'',
          ''Scenario Complete: FAILED'']
   \<and> map passed (results (runScenario e142_obj_services quotedObjectIdState)) = [False]"
proof -
  have v: "validateParameter OBJID_parameter quotedObjectId = None"
    "validateParameter ATTRID_parameter ''BinMap'' = None"
    "validateParameter NEWVAL_parameter ''100'' = None"
    by (simp_all add: param_eval run_eval)
  have run: "runScenario e142_obj_services quotedObjectIdState
      = finish e142_obj_services False
          (addLog ERROR (''Failed to parse message body for ''
               @ stepName (hd (steps e142_obj_services)))
             (JObj [(''error'', JStr (errorToString (SyntaxError ''Unexpected token in JSON'')))])
             LogError
             ((started e142_obj_services quotedObjectIdState)\<lparr>runningStep := Some 0\<rparr>))"
    using quoted_resolution
    by (simp add: runScenario_def quoted_state runStep_def Let_def started_simps
        e142_obj_services_def)
  have l: "map summary (logs (runScenario e142_obj_services quotedObjectIdState))
       = [''Starting Scenario: E142: Object Services (S14)'',
          ''Failed to parse message body for Get Attribute (S14F1)'',
          ''Scenario Complete: FAILED'']"
    unfolding run by (simp add: finish_simps addLog_simps started_simps quoted_state
        e142_obj_services_def)
  have p: "map passed (results (runScenario e142_obj_services quotedObjectIdState)) = [False]"
    unfolding run by (simp add: finish_simps addLog_simps started_simps quoted_state started_def)
  from quoted_state(1,2) v quoted_substitution quoted_resolution l p show ?thesis by blast
qed

text \<open>
  C5 (as the code has it). The import accepts a payload exactly when it parses as JSON
  to an array: the elements of the array, whatever they are, become the catalog, the
  selection is dropped and a success entry is logged. Any other text is refused with
  one error entry, and the catalog, the selection, the parameters and the verdict
  history stay as they were.
\<close>

theorem import_accepts_any_array:
  "(\<forall>imported. JSON_parse payload = Inr (JArr imported) \<longrightarrow>
       scenarios (handleImportScenarios (Some payload) s) = imported
     \<and> selectedScenario (handleImportScenarios (Some payload) s) = None
     \<and> logs (handleImportScenarios (Some payload) s) = logs s @
          [\<lparr>logId = idsDrawn s, logTimestamp = now s, direction = INFO,
            summary = ''Imported '' @ digitsOf (length imported) @ '' scenarios successfully.'',
            detail = ''{}'', logType = LogSuccess\<rparr>])
   \<and> ((\<forall>imported. JSON_parse payload \<noteq> Inr (JArr imported)) \<longrightarrow>
       scenarios (handleImportScenarios (Some payload) s) = scenarios s
     \<and> selectedScenario (handleImportScenarios (Some payload) s) = selectedScenario s
     \<and> paramValues (handleImportScenarios (Some payload) s) = paramValues s
     \<and> validationErrors (handleImportScenarios (Some payload) s) = validationErrors s
     \<and> results (handleImportScenarios (Some payload) s) = results s
     \<and> (\<exists>entry. logs (handleImportScenarios (Some payload) s) = logs s @ [entry]
           \<and> direction entry = ERROR \<and> logType entry = LogError))"
proof (cases "JSON_parse payload")
  case (Inl err)
  then show ?thesis by (simp add: handleImportScenarios_def addLog_simps)
next
  case (Inr v)
  then show ?thesis
    by (cases v) (simp_all add: handleImportScenarios_def addLog_simps setSelectedScenario_def)
qed

theorem import_accepts_any_array_witness:
  "JSON_parse ''[1]'' = Inr (JArr [JNum 1 0])
   \<and> scenarios (handleImportScenarios (Some ''[1]'') blankState) = [JNum 1 0]
   \<and> JSON_parse ''{}'' = Inr (JObj [])
   \<and> scenarios (handleImportScenarios (Some ''{}'') blankState) = scenarios blankState
   \<and> map direction (logs (handleImportScenarios (Some ''{}'') blankState)) = [ERROR]"
proof -
  have p1: "JSON_parse ''[1]'' = Inr (JArr [JNum 1 0])" by (simp add: run_eval)
  have p2: "JSON_parse ''{}'' = Inr (JObj [])" by (simp add: run_eval)
  have n: "\<forall>imported. JSON_parse ''{}'' \<noteq> Inr (JArr imported)" by (simp add: p2)
  from import_accepts_any_array [of "''[1]''" blankState, THEN conjunct1] p1
  have a: "scenarios (handleImportScenarios (Some ''[1]'') blankState) = [JNum 1 0]" by simp
  from import_accepts_any_array [of "''{}''" blankState, THEN conjunct2] n
  have b: "scenarios (handleImportScenarios (Some ''{}'') blankState) = scenarios blankState"
    and c: "\<exists>entry. logs (handleImportScenarios (Some ''{}'') blankState) = logs blankState @ [entry]
           \<and> direction entry = ERROR \<and> logType entry = LogError"
    by simp_all
  from c have d: "map direction (logs (handleImportScenarios (Some ''{}'') blankState)) = [ERROR]"
    by (auto simp: blankState_def)
  from p1 a p2 b d show ?thesis by simp
qed

text \<open>
  C5 as stated fails: the array \<^verbatim>\<open>[1]\<close> is accepted and replaces the catalog, although
  its element is not a Scenario record.
\<close>

theorem import_unvalidated_counterexample:
  "scenarios (handleImportScenarios (Some ''[1]'') blankState) = [JNum 1 0]
   \<and> scenarios (handleImportScenarios (Some ''[1]'') blankState) \<noteq> scenarios blankState
   \<and> map logType (logs (handleImportScenarios (Some ''[1]'') blankState)) = [LogSuccess]
   \<and> \<not> list_all isTestScenario [JNum 1 0]"
  by (simp add: handleImportScenarios_def setSelectedScenario_def run_eval)



text \<open>
  C7 (as the code has it). In a run with an empty parameter map (a scenario with zero
  parameters) and well-formed bodies, every step is executed and the transcript is the
  opening entry, the entries of the steps in order, and the closing entry. A step adds
  one host-to-equipment entry; then an error entry when it times out (wait bit and delay
  over the timeout budget); otherwise one equipment-to-host entry when an
  expected-response identifier is declared; otherwise an error entry when the wait bit is
  set. So a step with the wait bit and an entry of the reply table that does not time
  out adds exactly the pair, and a step without wait bit and without expected-response
  identifier adds exactly one entry.
\<close>

theorem transcript_per_step:
  assumes "runningStep s = None" and "validationErrors s = []" and "paramValues s = []"
    and "list_all (\<lambda>step. wellFormed (body (messageToSend step))) (steps sc)"
  shows "map direction (logs (runScenario sc s))
       = map direction (logs s) @ INFO # concat (map stepDirections (steps sc)) @ [INFO]
     \<and> length (stepOutcomes sc s) = length (steps sc)
     \<and> (\<forall>step. waitBit (messageToSend step) \<and> mockResponse step \<noteq> None
            \<and> \<not> numberGreater (simulateDelayMs step) (timeoutMs step)
          \<longrightarrow> stepDirections step = [HOST_TO_EQP, EQP_TO_HOST])
     \<and> (\<forall>step. \<not> waitBit (messageToSend step) \<and> expectedResponseSxFy step = None
          \<longrightarrow> stepDirections step = [HOST_TO_EQP])"
proof -
  obtain os ap s' where r: "runSteps 0 (steps sc) True (started sc s) = (os, ap, s')"
    by (metis prod_cases3)
  have pv: "paramValues (started sc s) = []" using assms(3) by (simp add: started_simps)
  from runSteps_directions [OF pv assms(4) r]
  have l: "length os = length (steps sc)"
    and d: "map direction (logs s') = map direction (logs (started sc s))
        @ concat (map stepDirections (steps sc))" by simp_all
  have 1: "map direction (logs (runScenario sc s))
       = map direction (logs s) @ INFO # concat (map stepDirections (steps sc)) @ [INFO]"
    by (simp add: runScenario_completes [OF assms(1,2) r] finish_simps d started_simps)
  have 2: "length (stepOutcomes sc s) = length (steps sc)"
    using r l by (simp add: stepOutcomes_def)
  have 3: "stepDirections step = [HOST_TO_EQP, EQP_TO_HOST]"
    if "waitBit (messageToSend step)" "mockResponse step \<noteq> None"
      "\<not> numberGreater (simulateDelayMs step) (timeoutMs step)" for step
    using that by (auto simp: stepDirections_def mockResponse_def split: option.splits if_splits)
  have 4: "stepDirections step = [HOST_TO_EQP]"
    if "\<not> waitBit (messageToSend step)" "expectedResponseSxFy step = None" for step
    using that by (simp add: stepDirections_def)
  from 1 2 3 4 show ?thesis by blast
qed

theorem transcript_per_step_witness:
  "runningStep blankState = None \<and> validationErrors blankState = [] \<and> paramValues blankState = []
   \<and> list_all (\<lambda>step. wellFormed (body (messageToSend step))) (steps e9_timeout)
   \<and> map stepDirections (steps e9_timeout) = [[HOST_TO_EQP, EQP_TO_HOST], [HOST_TO_EQP, ERROR]]
   \<and> map direction (logs (runScenario e9_timeout blankState))
       = [INFO, HOST_TO_EQP, EQP_TO_HOST, HOST_TO_EQP, ERROR, INFO]
   \<and> length (stepOutcomes e9_timeout blankState) = 2"
proof -
  have g: "runningStep blankState = None" "validationErrors blankState = []"
    "paramValues blankState = []" "logs blankState = []"
    by (simp_all add: blankState_def)
  have wf: "list_all (\<lambda>step. wellFormed (body (messageToSend step))) (steps e9_timeout)"
    by (simp add: e9_timeout_def)
  have sd: "map stepDirections (steps e9_timeout) = [[HOST_TO_EQP, EQP_TO_HOST], [HOST_TO_EQP, ERROR]]"
    by (simp add: e9_timeout_def stepDirections_def timeoutMs_def simulateDelayMs_def)
  have n: "length (steps e9_timeout) = 2" by (simp add: e9_timeout_def)
  note t = transcript_per_step [OF g(1,2,3) wf]
  from t [THEN conjunct1] sd g(4)
  have l: "map direction (logs (runScenario e9_timeout blankState))
       = [INFO, HOST_TO_EQP, EQP_TO_HOST, HOST_TO_EQP, ERROR, INFO]" by simp
  from t [THEN conjunct2, THEN conjunct1] n
  have o: "length (stepOutcomes e9_timeout blankState) = 2" by simp
  from g wf sd l o show ?thesis by simp
qed

text \<open>
  C7 as stated fails on a scenario with zero parameters: its first step has the wait bit
  and an entry of the reply table but times out, and gets an error entry instead of an
  equipment-to-host entry; its second step has no wait bit and gets two entries.
\<close>

theorem transcript_per_step_counterexample:
  "parameters slowAndUnsolicited = None
   \<and> map (\<lambda>step. waitBit (messageToSend step)) (steps slowAndUnsolicited) = [True, False]
   \<and> map mockResponse (steps slowAndUnsolicited)
       = [map_of MOCK_RESPONSES ''S14F2'', map_of MOCK_RESPONSES ''S14F2'']
   \<and> map_of MOCK_RESPONSES ''S14F2''
       = Some (JObj [(''OBJID'', JStr ''WaferMap_01''), (''ATTRID'', JArr [JStr ''BinMap'']),
                     (''ATTRDATA'', JArr [JStr ''001001001''])])
   \<and> map direction (logs (runScenario slowAndUnsolicited blankState))
       = [INFO, HOST_TO_EQP, ERROR, HOST_TO_EQP, EQP_TO_HOST, INFO]"
  by (simp add: slowAndUnsolicited_def runScenario_def finish_def run_eval)




end
